theory Spec2Isabelle
  imports Complex_Main "HOL-Library.Product_Lexorder" "HOL-Library.Multiset"
begin

section \<open>EV charging: energy needs, slot scheduling, SoC and cost simulation\<close>

text \<open>
  A shallow embedding of the three core functions of \<^verbatim>\<open>src/ev_charging.py\<close>:
  \<^verbatim>\<open>calculate_energy_needs\<close>, \<^verbatim>\<open>schedule_charging\<close> and
  \<^verbatim>\<open>compute_costs_and_soc\<close>.

  Conventions of the model:
  \<^item> Python numbers (kWh, kW, SoC fractions, prices) are exact reals: rounding of
    binary floating point is not modelled.
  \<^item> Python integers (hours, days, ports, indices) are \<open>int\<close>.
  \<^item> A \<^verbatim>\<open>dict\<close> is an association list in insertion order with distinct keys;
    \<^verbatim>\<open>defaultdict(list)\<close> is the same with a read that creates the missing key.
  \<^item> Every exception the code can raise is a value of \<open>error\<close>; a function that can
    raise returns \<open>error + 'a\<close>, and the first exception aborts the run.
  \<^item> Printing is not modelled.
\<close>

subsection \<open>Exceptions\<close>

datatype error = KeyError | ValueError | IndexError | ZeroDivisionError

subsection \<open>Dictionaries\<close>

definition dict_contains :: "('k \<times> 'v) list \<Rightarrow> 'k \<Rightarrow> bool" where
  "dict_contains d k = (map_of d k \<noteq> None)"

text \<open>\<^verbatim>\<open>d[k] = v\<close>: an existing key keeps its position, a new key goes last.\<close>

fun dict_set :: "'k \<Rightarrow> 'v \<Rightarrow> ('k \<times> 'v) list \<Rightarrow> ('k \<times> 'v) list" where
  "dict_set k v [] = [(k, v)]"
| "dict_set k v (kv # d) = (if fst kv = k then (k, v) # d else kv # dict_set k v d)"

text \<open>The value of \<^verbatim>\<open>d[k]\<close> for a \<^verbatim>\<open>defaultdict(list)\<close>, and the dictionary after that read.\<close>

definition dd_value :: "('k \<times> 'v list) list \<Rightarrow> 'k \<Rightarrow> 'v list" where
  "dd_value d k = (case map_of d k of None \<Rightarrow> [] | Some xs \<Rightarrow> xs)"

definition dd_touch :: "'k \<Rightarrow> ('k \<times> 'v list) list \<Rightarrow> ('k \<times> 'v list) list" where
  "dd_touch k d = (if dict_contains d k then d else d @ [(k, [])])"

text \<open>\<^verbatim>\<open>d[k].append(x)\<close> for a \<^verbatim>\<open>defaultdict(list)\<close>.\<close>

definition dd_append :: "'k \<Rightarrow> 'v \<Rightarrow> ('k \<times> 'v list) list \<Rightarrow> ('k \<times> 'v list) list" where
  "dd_append k x d = dict_set k (dd_value d k @ [x]) d"

subsection \<open>List indexing and slicing as Python does them\<close>

text \<open>\<^verbatim>\<open>xs[i]\<close>: a negative index counts from the end, out of range raises.\<close>

definition py_norm_index :: "nat \<Rightarrow> int \<Rightarrow> nat option" where
  "py_norm_index n i =
     (if 0 \<le> i \<and> i < int n then Some (nat i)
      else if i < 0 \<and> - int n \<le> i then Some (nat (int n + i))
      else None)"

definition py_index :: "'a list \<Rightarrow> int \<Rightarrow> error + 'a" where
  "py_index xs i =
     (case py_norm_index (length xs) i of None \<Rightarrow> Inl IndexError | Some j \<Rightarrow> Inr (xs ! j))"

text \<open>\<^verbatim>\<open>xs[:n]\<close>: a negative bound drops that many elements from the end.\<close>

definition py_take :: "int \<Rightarrow> 'a list \<Rightarrow> 'a list" where
  "py_take n xs = (if 0 \<le> n then take (nat n) xs else take (length xs - nat (- n)) xs)"

subsection \<open>Parsing integers: \<^verbatim>\<open>int(s)\<close> on ASCII strings\<close>

text \<open>
  \<^verbatim>\<open>int(s)\<close> strips surrounding whitespace, reads an optional sign and then decimal
  digits, where single underscores may separate digits; anything else raises
  \<^verbatim>\<open>ValueError\<close>. Strings are ASCII here.
\<close>

definition is_space :: "char \<Rightarrow> bool" where
  "is_space c = (c \<in> set [CHR 0x09, CHR 0x0A, CHR 0x0B, CHR 0x0C, CHR 0x0D,
                           CHR 0x1C, CHR 0x1D, CHR 0x1E, CHR 0x1F, CHR 0x20])"

definition strip :: "string \<Rightarrow> string" where
  "strip s = rev (dropWhile is_space (rev (dropWhile is_space s)))"

definition digit_val :: "char \<Rightarrow> nat option" where
  "digit_val c = map_of [(CHR ''0'', 0), (CHR ''1'', 1), (CHR ''2'', 2), (CHR ''3'', 3),
     (CHR ''4'', 4), (CHR ''5'', 5), (CHR ''6'', 6), (CHR ''7'', 7), (CHR ''8'', 8),
     (CHR ''9'', 9)] c"

fun parse_digits :: "bool \<Rightarrow> nat \<Rightarrow> string \<Rightarrow> nat option" where
  "parse_digits prev acc [] = (if prev then Some acc else None)"
| "parse_digits prev acc (c # cs) =
     (case digit_val c of
        Some d \<Rightarrow> parse_digits True (acc * 10 + d) cs
      | None \<Rightarrow> if c = CHR ''_'' \<and> prev then parse_digits False acc cs else None)"

definition py_int :: "string \<Rightarrow> error + int" where
  "py_int s =
     (case strip s of
        [] \<Rightarrow> Inl ValueError
      | c # cs \<Rightarrow>
          (case (if c = CHR ''-'' then map_option (\<lambda>n. - int n) (parse_digits False 0 cs)
                 else if c = CHR ''+'' then map_option int (parse_digits False 0 cs)
                 else map_option int (parse_digits False 0 (c # cs))) of
             None \<Rightarrow> Inl ValueError
           | Some n \<Rightarrow> Inr n))"

text \<open>\<^verbatim>\<open>time.split(':')[0]\<close>: the text before the first colon, all of it when there is none.\<close>

definition split_colon_first :: "string \<Rightarrow> string" where
  "split_colon_first s = takeWhile (\<lambda>c. c \<noteq> CHR '':'') s"

subsection \<open>Data model\<close>

record car =
  capacity_kWh :: real
  max_charge_rate_kW :: real

record requirement =
  day :: int
  deadline_hour :: int
  energy_kwh :: real
  max_rate_kw :: real
  target_soc :: real
  prior_day_start :: int
  prior_day_end :: int

type_synonym cars_dict = "(string \<times> car) list"

text \<open>Requirements as loaded from JSON: vehicle, then day (a string), then time of day, then target SoC.\<close>

type_synonym requirements = "(string \<times> (string \<times> (string \<times> real) list) list) list"

type_synonym energy_needs = "(string \<times> requirement list) list"

text \<open>A charging session \<open>(hour, power_kw, port)\<close>.\<close>

type_synonym session = "int \<times> real \<times> int"

type_synonym schedule = "(string \<times> session list) list"

subsection \<open>Energy-need deriver: \<^verbatim>\<open>calculate_energy_needs\<close>\<close>

text \<open>The innermost loop, over the \<open>(time, target_soc)\<close> entries of one day.\<close>

fun needs_of_times ::
  "cars_dict \<Rightarrow> real \<Rightarrow> string \<Rightarrow> real \<Rightarrow> string \<Rightarrow> (string \<times> real) list \<Rightarrow>
   energy_needs \<Rightarrow> error + energy_needs" where
  "needs_of_times cars initial_soc car_id capacity dayS [] en = Inr en"
| "needs_of_times cars initial_soc car_id capacity dayS (ts # rest) en =
     (case py_int (split_colon_first (fst ts)) of
        Inl e \<Rightarrow> Inl e
      | Inr hr \<Rightarrow>
          (case py_int dayS of
             Inl e \<Rightarrow> Inl e
           | Inr new_day \<Rightarrow>
               (case map_of cars car_id of
                  None \<Rightarrow> Inl KeyError
                | Some c \<Rightarrow>
                    needs_of_times cars initial_soc car_id capacity dayS rest
                      (dd_append car_id
                         \<lparr>day = new_day,
                          deadline_hour = (new_day + 1) * 24 + hr,
                          energy_kwh = (snd ts - initial_soc) * capacity / 0.95,
                          max_rate_kw = max_charge_rate_kW c,
                          target_soc = snd ts,
                          prior_day_start = new_day * 24 + 18,
                          prior_day_end = (new_day + 1) * 24\<rparr> en))))"

text \<open>The loop over the days of one vehicle.\<close>

fun needs_of_days ::
  "cars_dict \<Rightarrow> real \<Rightarrow> string \<Rightarrow> real \<Rightarrow> (string \<times> (string \<times> real) list) list \<Rightarrow>
   energy_needs \<Rightarrow> error + energy_needs" where
  "needs_of_days cars initial_soc car_id capacity [] en = Inr en"
| "needs_of_days cars initial_soc car_id capacity (d # rest) en =
     (case needs_of_times cars initial_soc car_id capacity (fst d) (snd d) en of
        Inl e \<Rightarrow> Inl e
      | Inr en' \<Rightarrow> needs_of_days cars initial_soc car_id capacity rest en')"

text \<open>The loop over vehicles; a vehicle with an empty day dictionary is skipped before the roster is read.\<close>

fun needs_of_cars :: "cars_dict \<Rightarrow> real \<Rightarrow> requirements \<Rightarrow> energy_needs \<Rightarrow> error + energy_needs" where
  "needs_of_cars cars initial_soc [] en = Inr en"
| "needs_of_cars cars initial_soc (cr # rest) en =
     (if snd cr = [] then needs_of_cars cars initial_soc rest en
      else
        (case map_of cars (fst cr) of
           None \<Rightarrow> Inl KeyError
         | Some c \<Rightarrow>
             (case needs_of_days cars initial_soc (fst cr) (capacity_kWh c) (snd cr) en of
                Inl e \<Rightarrow> Inl e
              | Inr en' \<Rightarrow> needs_of_cars cars initial_soc rest en')))"

definition calculate_energy_needs :: "cars_dict \<Rightarrow> requirements \<Rightarrow> real \<Rightarrow> error + energy_needs" where
  "calculate_energy_needs cars reqs initial_soc = needs_of_cars cars initial_soc reqs []"

subsection \<open>Slot scheduler: \<^verbatim>\<open>schedule_charging\<close>\<close>

text \<open>
  The availability frame after the transpose: its row labels are the vehicles (\<open>index\<close>),
  its column labels the absolute hours (\<open>columns\<close>), and \<open>cell\<close> reads one entry.
\<close>

record availability =
  index :: "string list"
  columns :: "int list"
  cell :: "string \<Rightarrow> int \<Rightarrow> int"

text \<open>\<^verbatim>\<open>availability.index[availability[hour] == 1].tolist()\<close>\<close>

definition available_cars :: "availability \<Rightarrow> int \<Rightarrow> string list" where
  "available_cars av h = filter (\<lambda>c. cell av c h = 1) (index av)"

text \<open>A candidate \<open>(car_id, req_index, energy_kwh, max_rate_kw)\<close>; \<open>req_index\<close> is \<open>-1\<close> for a vehicle without requirements.\<close>

type_synonym candidate = "string \<times> int \<times> real \<times> real"

record sched_state =
  schedule :: schedule
  requirements_met :: "(string \<times> bool list) list"
  hour_port_count :: "int \<Rightarrow> int"

definition init_state :: "energy_needs \<Rightarrow> sched_state" where
  "init_state en =
     \<lparr>schedule = [],
      requirements_met = map (\<lambda>cr. (fst cr, replicate (length (snd cr)) False)) en,
      hour_port_count = (\<lambda>_. 0)\<rparr>"

text \<open>
  The scan \<^verbatim>\<open>for i, req in enumerate(energy_needs[car_id])\<close> with its \<^verbatim>\<open>break\<close>:
  the first requirement that is not met and whose window contains the hour.
  \<open>flags\<close> is \<^verbatim>\<open>requirements_met.get(car_id)\<close>, read only when a requirement is inspected.
\<close>

fun find_req ::
  "int \<Rightarrow> int \<Rightarrow> requirement list \<Rightarrow> bool list option \<Rightarrow> error + (int \<times> requirement) option" where
  "find_req h i [] flags = Inr None"
| "find_req h i (r # rs) flags =
     (case flags of
        None \<Rightarrow> Inl KeyError
      | Some fl \<Rightarrow>
          (case py_index fl i of
             Inl e \<Rightarrow> Inl e
           | Inr m \<Rightarrow>
               if \<not> m \<and> prior_day_start r \<le> h \<and> h < prior_day_end r then Inr (Some (i, r))
               else find_req h (i + 1) rs flags))"

text \<open>Building \<^verbatim>\<open>car_needs\<close> for one hour from the available vehicles.\<close>

fun build_car_needs ::
  "energy_needs \<Rightarrow> cars_dict \<Rightarrow> (string \<times> bool list) list \<Rightarrow> int \<Rightarrow> string list \<Rightarrow>
   error + candidate list" where
  "build_car_needs en cars met h [] = Inr []"
| "build_car_needs en cars met h (car_id # rest) =
     (case map_of en car_id of
        None \<Rightarrow>
          (case map_of cars car_id of
             None \<Rightarrow> Inl KeyError
           | Some c \<Rightarrow>
               (case build_car_needs en cars met h rest of
                  Inl e \<Rightarrow> Inl e
                | Inr cn \<Rightarrow> Inr ((car_id, - 1, 0, max_charge_rate_kW c) # cn)))
      | Some reqs \<Rightarrow>
          (case find_req h 0 reqs (map_of met car_id) of
             Inl e \<Rightarrow> Inl e
           | Inr None \<Rightarrow> build_car_needs en cars met h rest
           | Inr (Some ir) \<Rightarrow>
               (case build_car_needs en cars met h rest of
                  Inl e \<Rightarrow> Inl e
                | Inr cn \<Rightarrow>
                    Inr ((car_id, fst ir, energy_kwh (snd ir), max_rate_kw (snd ir)) # cn))))"

text \<open>
  The priority order: candidates with a positive need, by need ascending and then by
  rate descending, followed by candidates with need zero, by rate descending.
  \<^verbatim>\<open>sorted\<close> is stable, as \<open>sort_key\<close> is.
\<close>

definition cars_with_needs :: "candidate list \<Rightarrow> candidate list" where
  "cars_with_needs cn =
     sort_key (\<lambda>c. (fst (snd (snd c)), - snd (snd (snd c)))) (filter (\<lambda>c. fst (snd (snd c)) > 0) cn)"

definition cars_without_needs :: "candidate list \<Rightarrow> candidate list" where
  "cars_without_needs cn =
     sort_key (\<lambda>c. - snd (snd (snd c))) (filter (\<lambda>c. fst (snd (snd c)) = 0) cn)"

definition prioritize :: "candidate list \<Rightarrow> candidate list" where
  "prioritize cn = cars_with_needs cn @ cars_without_needs cn"

text \<open>
  \<^verbatim>\<open>sum(p for h, p, _ in schedule[car_id] if start <= h < end)\<close>, where the window is
  that of \<^verbatim>\<open>energy_needs[car_id][req_index]\<close>, read once per session: with no session
  yet nothing is read and the sum is 0.
\<close>

definition energy_delivered :: "energy_needs \<Rightarrow> string \<Rightarrow> int \<Rightarrow> session list \<Rightarrow> error + real" where
  "energy_delivered en car_id req_index sessions =
     (if sessions = [] then Inr 0
      else
        (case py_index (dd_value en car_id) req_index of
           Inl e \<Rightarrow> Inl e
         | Inr r \<Rightarrow>
             Inr (sum_list (map (\<lambda>s. fst (snd s))
                    (filter (\<lambda>s. prior_day_start r \<le> fst s \<and> fst s < prior_day_end r) sessions)))))"

text \<open>\<^verbatim>\<open>requirements_met[car_id][req_index] = True\<close>\<close>

definition set_met ::
  "string \<Rightarrow> int \<Rightarrow> (string \<times> bool list) list \<Rightarrow> error + (string \<times> bool list) list" where
  "set_met car_id req_index met =
     (case map_of met car_id of
        None \<Rightarrow> Inl KeyError
      | Some fl \<Rightarrow>
          (case py_norm_index (length fl) req_index of
             None \<Rightarrow> Inl IndexError
           | Some j \<Rightarrow> Inr (dict_set car_id (fl[j := True]) met)))"

text \<open>\<^verbatim>\<open>schedule[car_id].append((hour, power_kw, port)); hour_port_count[hour] += 1\<close>\<close>

definition record_session :: "string \<Rightarrow> int \<Rightarrow> real \<Rightarrow> int \<Rightarrow> sched_state \<Rightarrow> sched_state" where
  "record_session car_id h power_kw port st =
     st\<lparr>schedule := dd_append car_id (h, power_kw, port) (schedule st),
        hour_port_count := (hour_port_count st)(h := hour_port_count st h + 1)\<rparr>"

text \<open>
  The body of the assignment loop for one candidate, after the port check. Reading
  \<^verbatim>\<open>schedule[car_id]\<close> for the delivered energy creates the vehicle's entry.
  A candidate with need 0 is charged at its rate with no further check; otherwise a
  candidate whose window already holds its need is marked met and takes no port
  (\<^verbatim>\<open>continue\<close>), and any other gets \<^verbatim>\<open>min(max_rate_kw, energy_remaining)\<close>.
\<close>

definition assign_one :: "energy_needs \<Rightarrow> int \<Rightarrow> candidate \<Rightarrow> sched_state \<Rightarrow> error + sched_state" where
  "assign_one en h c st =
     (let car_id = fst c; req_index = fst (snd c);
          e_kwh = fst (snd (snd c)); rate = snd (snd (snd c));
          port = hour_port_count st h + 1
      in
        if e_kwh = 0 then Inr (record_session car_id h rate port st)
        else
          let st1 = st\<lparr>schedule := dd_touch car_id (schedule st)\<rparr> in
          (case energy_delivered en car_id req_index (dd_value (schedule st) car_id) of
             Inl e \<Rightarrow> Inl e
           | Inr delivered \<Rightarrow>
               if delivered \<ge> e_kwh then
                 (case set_met car_id req_index (requirements_met st1) of
                    Inl e \<Rightarrow> Inl e
                  | Inr met' \<Rightarrow> Inr (st1\<lparr>requirements_met := met'\<rparr>))
               else
                 let power_kw = min rate (e_kwh - delivered) in
                 (case (if delivered + power_kw \<ge> e_kwh
                        then set_met car_id req_index (requirements_met st1)
                        else Inr (requirements_met st1)) of
                    Inl e \<Rightarrow> Inl e
                  | Inr met' \<Rightarrow>
                      Inr (record_session car_id h power_kw port
                             (st1\<lparr>requirements_met := met'\<rparr>)))))"

text \<open>
  The assignment loop of one hour over the truncated priority list:
  \<^verbatim>\<open>if hour_port_count[hour] >= num_ports: break\<close> stands before every candidate.
\<close>

fun assign_slots ::
  "energy_needs \<Rightarrow> int \<Rightarrow> int \<Rightarrow> candidate list \<Rightarrow> sched_state \<Rightarrow> error + sched_state" where
  "assign_slots en num_ports h [] st = Inr st"
| "assign_slots en num_ports h (c # rest) st =
     (if hour_port_count st h \<ge> num_ports then Inr st
      else
        (case assign_one en h c st of
           Inl e \<Rightarrow> Inl e
         | Inr st' \<Rightarrow> assign_slots en num_ports h rest st'))"

text \<open>One iteration of the loop over hours; an hour that is no column of the frame is skipped.\<close>

definition schedule_hour ::
  "energy_needs \<Rightarrow> availability \<Rightarrow> cars_dict \<Rightarrow> int \<Rightarrow> int \<Rightarrow> sched_state \<Rightarrow> error + sched_state" where
  "schedule_hour en av cars num_ports h st =
     (if h \<notin> set (columns av) then Inr st
      else
        (case build_car_needs en cars (requirements_met st) h (available_cars av h) of
           Inl e \<Rightarrow> Inl e
         | Inr cn \<Rightarrow> assign_slots en num_ports h (py_take num_ports (prioritize cn)) st))"

fun schedule_hours ::
  "energy_needs \<Rightarrow> availability \<Rightarrow> cars_dict \<Rightarrow> int \<Rightarrow> int list \<Rightarrow> sched_state \<Rightarrow> error + sched_state" where
  "schedule_hours en av cars num_ports [] st = Inr st"
| "schedule_hours en av cars num_ports (h # hs) st =
     (case schedule_hour en av cars num_ports h st of
        Inl e \<Rightarrow> Inl e
      | Inr st' \<Rightarrow> schedule_hours en av cars num_ports hs st')"

text \<open>
  The whole run, \<^verbatim>\<open>for hour in range(18, total_hours)\<close>, with the final state: the
  schedule, the satisfaction flags and the port counters.
\<close>

definition schedule_run ::
  "energy_needs \<Rightarrow> availability \<Rightarrow> cars_dict \<Rightarrow> int \<Rightarrow> int \<Rightarrow> error + sched_state" where
  "schedule_run en av cars num_ports total_hours =
     schedule_hours en av cars num_ports [18..total_hours - 1] (init_state en)"

text \<open>The function as the code returns it: the schedule alone (\<^verbatim>\<open>price_dict\<close> is a parameter the code never reads).\<close>

definition schedule_charging ::
  "energy_needs \<Rightarrow> availability \<Rightarrow> cars_dict \<Rightarrow> int \<Rightarrow> int \<Rightarrow> error + schedule" where
  "schedule_charging en av cars num_ports total_hours =
     (case schedule_run en av cars num_ports total_hours of
        Inl e \<Rightarrow> Inl e
      | Inr st \<Rightarrow> Inr (schedule st))"

subsection \<open>SoC and cost simulator: \<^verbatim>\<open>compute_costs_and_soc\<close>\<close>

text \<open>A trace record \<open>(day, hour, power_kw, soc)\<close> and a cost record \<open>(day, hour, cost)\<close>.\<close>

type_synonym trace = "int \<times> int \<times> real \<times> real"

type_synonym cost = "int \<times> int \<times> real"

record sim_out =
  cost_summary :: "(string \<times> cost list) list"
  hourly_soc :: "(string \<times> trace list) list"

text \<open>\<^verbatim>\<open>next((p for h, p, _ in sessions if h == hour), 0)\<close>\<close>

fun power_at :: "session list \<Rightarrow> int \<Rightarrow> real" where
  "power_at [] h = 0"
| "power_at (s # ss) h = (if fst s = h then fst (snd s) else power_at ss h)"

definition day_of :: "int \<Rightarrow> int" where
  "day_of h = (let d = (h - 18) div 24 in if d > 5 then 5 else d)"

text \<open>The body of the loop over hours for one vehicle: resets, the SoC update, the trace and the cost.\<close>

fun simulate_hours ::
  "energy_needs \<Rightarrow> (int \<Rightarrow> real option) \<Rightarrow> real \<Rightarrow> string \<Rightarrow> real \<Rightarrow> session list \<Rightarrow>
   int list \<Rightarrow> real \<Rightarrow> sim_out \<Rightarrow> error + sim_out" where
  "simulate_hours en price_dict initial_soc car_id capacity sessions [] soc out = Inr out"
| "simulate_hours en price_dict initial_soc car_id capacity sessions (h # hs) soc out =
     (let d = day_of h;
          soc1 = (if \<not> dict_contains en car_id \<and> h = 18 + d * 24 then initial_soc else soc);
          soc2 = (if list_ex (\<lambda>r. deadline_hour r = h) (dd_value en car_id) then initial_soc else soc1);
          power_kw = power_at sessions h;
          energy_to_battery = power_kw * 0.95
      in
        if capacity = 0 then Inl ZeroDivisionError
        else
          let soc3 = min 1 (soc2 + energy_to_battery / capacity);
              out1 = out\<lparr>hourly_soc := dd_append car_id (d, h, power_kw, soc3) (hourly_soc out)\<rparr>;
              out2 = (if power_kw > 0
                      then out1\<lparr>cost_summary :=
                             dd_append car_id
                               (d, h, power_kw * (case price_dict h of None \<Rightarrow> 0.40 | Some p \<Rightarrow> p))
                               (cost_summary out1)\<rparr>
                      else out1)
          in simulate_hours en price_dict initial_soc car_id capacity sessions hs soc3 out2)"

text \<open>The loop over \<^verbatim>\<open>schedule.items()\<close>; the hours are the fixed \<^verbatim>\<open>range(18, 168)\<close>.\<close>

fun simulate_cars ::
  "cars_dict \<Rightarrow> energy_needs \<Rightarrow> (int \<Rightarrow> real option) \<Rightarrow> real \<Rightarrow> schedule \<Rightarrow> sim_out \<Rightarrow>
   error + sim_out" where
  "simulate_cars cars en price_dict initial_soc [] out = Inr out"
| "simulate_cars cars en price_dict initial_soc (cs # rest) out =
     (case map_of cars (fst cs) of
        None \<Rightarrow> Inl KeyError
      | Some c \<Rightarrow>
          (case simulate_hours en price_dict initial_soc (fst cs) (capacity_kWh c) (snd cs)
                  [18..167] initial_soc out of
             Inl e \<Rightarrow> Inl e
           | Inr out' \<Rightarrow> simulate_cars cars en price_dict initial_soc rest out'))"

text \<open>The result \<open>(cost_summary, final_soc, hourly_soc)\<close>.\<close>

definition compute_costs_and_soc ::
  "schedule \<Rightarrow> cars_dict \<Rightarrow> (int \<Rightarrow> real option) \<Rightarrow> energy_needs \<Rightarrow> real \<Rightarrow>
   error + ((string \<times> cost list) list \<times> (string \<times> real) list \<times> (string \<times> trace list) list)" where
  "compute_costs_and_soc sched cars price_dict en initial_soc =
     (let final_soc = map (\<lambda>kc. (fst kc, initial_soc)) cars in
        (case simulate_cars cars en price_dict initial_soc sched
                \<lparr>cost_summary = [], hourly_soc = []\<rparr> of
           Inl e \<Rightarrow> Inl e
         | Inr out \<Rightarrow> Inr (cost_summary out, final_soc, hourly_soc out)))"

section \<open>Scenarios and observers used by the properties\<close>

text \<open>Full availability of the given vehicles over the week.\<close>

definition full_availability :: "string list \<Rightarrow> availability" where
  "full_availability ids = \<lparr>index = ids, columns = [0..167], cell = (\<lambda>_ _. 1)\<rparr>"

text \<open>
  The one-vehicle scenario: capacity 50 kWh, rate 11 kW, initial SoC 0.2, and one
  requirement on day 0, target 0.8 by 07:00.
\<close>

definition scenario_cars :: cars_dict where
  "scenario_cars = [(''car1'', \<lparr>capacity_kWh = 50, max_charge_rate_kW = 11\<rparr>)]"

definition scenario_reqs :: requirements where
  "scenario_reqs = [(''car1'', [(''0'', [(''07:00'', 0.8)])])]"

definition scenario_needs :: energy_needs where
  "scenario_needs =
     [(''car1'', [\<lparr>day = 0, deadline_hour = 31, energy_kwh = 600 / 19, max_rate_kw = 11,
                   target_soc = 0.8, prior_day_start = 18, prior_day_end = 24\<rparr>])]"

text \<open>The schedule and the satisfaction flags of a final state.\<close>

definition outcome :: "error + sched_state \<Rightarrow> error + (schedule \<times> (string \<times> bool list) list)" where
  "outcome r = (case r of Inl e \<Rightarrow> Inl e | Inr st \<Rightarrow> Inr (schedule st, requirements_met st))"

text \<open>Bounds on the inputs and on the derived needs, as executable checks.\<close>

definition targets_within :: "real \<Rightarrow> real \<Rightarrow> requirements \<Rightarrow> bool" where
  "targets_within lo hi reqs =
     list_all (\<lambda>cr. list_all (\<lambda>d. list_all (\<lambda>ts. lo \<le> snd ts \<and> snd ts \<le> hi) (snd d)) (snd cr)) reqs"

definition capacities_nonneg :: "cars_dict \<Rightarrow> bool" where
  "capacities_nonneg cars = list_all (\<lambda>kc. 0 \<le> capacity_kWh (snd kc)) cars"

definition needs_nonneg :: "energy_needs \<Rightarrow> bool" where
  "needs_nonneg en = list_all (\<lambda>cr. list_all (\<lambda>r. 0 \<le> energy_kwh r) (snd cr)) en"

text \<open>A requirement whose target, 0.1, lies below the initial SoC 0.2.\<close>

definition low_target_reqs :: requirements where
  "low_target_reqs = [(''car1'', [(''0'', [(''07:00'', 0.1)])])]"

text \<open>The \<open>(day, hour, power_kw)\<close> part of a trace, and a schedule the simulator can replay without an exception.\<close>

definition trace_shape :: "trace list \<Rightarrow> (int \<times> int \<times> real) list" where
  "trace_shape ts = map (\<lambda>t. (fst t, fst (snd t), fst (snd (snd t)))) ts"

definition roster_ok :: "cars_dict \<Rightarrow> schedule \<Rightarrow> bool" where
  "roster_ok cars sched =
     list_all (\<lambda>cs. case map_of cars (fst cs) of None \<Rightarrow> False | Some c \<Rightarrow> capacity_kWh c \<noteq> 0) sched"

text \<open>Two vehicles without requirements that compete for one port in the only hour of the frame.\<close>

definition two_cars :: cars_dict where
  "two_cars = [(''A'', \<lparr>capacity_kWh = 50, max_charge_rate_kW = 22\<rparr>),
               (''B'', \<lparr>capacity_kWh = 50, max_charge_rate_kW = 7\<rparr>)]"

definition one_hour_availability :: availability where
  "one_hour_availability = \<lparr>index = [''A'', ''B''], columns = [18], cell = (\<lambda>_ _. 1)\<rparr>"

text \<open>A session after the only deadline of the one-vehicle scenario.\<close>

definition late_session :: schedule where
  "late_session = [(''car1'', [(40, 11, 1)])]"

text \<open>The parts of a candidate, and the two orders of the priority list in the words of the specification.\<close>

definition cand_car :: "candidate \<Rightarrow> string" where
  "cand_car c = fst c"

definition cand_index :: "candidate \<Rightarrow> int" where
  "cand_index c = fst (snd c)"

definition cand_need :: "candidate \<Rightarrow> real" where
  "cand_need c = fst (snd (snd c))"

definition cand_rate :: "candidate \<Rightarrow> real" where
  "cand_rate c = snd (snd (snd c))"

text \<open>Ascending by energy need, ties broken descending by max rate.\<close>

definition needs_order :: "candidate \<Rightarrow> candidate \<Rightarrow> bool" where
  "needs_order a b =
     (cand_need a < cand_need b \<or> (cand_need a = cand_need b \<and> cand_rate b \<le> cand_rate a))"

text \<open>Descending by max rate.\<close>

definition rate_order :: "candidate \<Rightarrow> candidate \<Rightarrow> bool" where
  "rate_order a b = (cand_rate b \<le> cand_rate a)"

text \<open>
  A vehicle \<open>N\<close> with a need of 5 kWh and rate 7 kW against a vehicle \<open>O\<close> without
  requirements and rate 22 kW, for one port in one hour; \<open>O\<close> comes first in the frame.
\<close>

definition contest_cars :: cars_dict where
  "contest_cars = [(''N'', \<lparr>capacity_kWh = 50, max_charge_rate_kW = 7\<rparr>),
                   (''O'', \<lparr>capacity_kWh = 50, max_charge_rate_kW = 22\<rparr>)]"

definition contest_needs :: energy_needs where
  "contest_needs =
     [(''N'', [\<lparr>day = 0, deadline_hour = 31, energy_kwh = 5, max_rate_kw = 7,
                target_soc = 0.295, prior_day_start = 18, prior_day_end = 24\<rparr>])]"

definition contest_availability :: availability where
  "contest_availability = \<lparr>index = [''O'', ''N''], columns = [18], cell = (\<lambda>_ _. 1)\<rparr>"

text \<open>Counting the sessions of an hour: over the whole schedule, and for one vehicle.\<close>

definition sessions_at :: "schedule \<Rightarrow> int \<Rightarrow> nat" where
  "sessions_at sched h = sum_list (map (\<lambda>cs. length (filter (\<lambda>s. fst s = h) (snd cs))) sched)"

definition car_sessions_at :: "schedule \<Rightarrow> string \<Rightarrow> int \<Rightarrow> nat" where
  "car_sessions_at sched car_id h = length (filter (\<lambda>s. fst s = h) (dd_value sched car_id))"

text \<open>The power of the sessions of a vehicle that lie in the eligibility window of a requirement.\<close>

definition delivered :: "requirement \<Rightarrow> session list \<Rightarrow> real" where
  "delivered r sessions =
     sum_list (map (\<lambda>s. fst (snd s))
       (filter (\<lambda>s. prior_day_start r \<le> fst s \<and> fst s < prior_day_end r) sessions))"

definition in_window :: "requirement \<Rightarrow> int \<Rightarrow> bool" where
  "in_window r h = (prior_day_start r \<le> h \<and> h < prior_day_end r)"

text \<open>No requirement carries a negative charge rate.\<close>

definition rates_nonneg :: "energy_needs \<Rightarrow> bool" where
  "rates_nonneg en = list_all (\<lambda>cr. list_all (\<lambda>r. 0 \<le> max_rate_kw r) (snd cr)) en"

text \<open>
  A candidate as the scan of an hour builds it: for a vehicle without requirements the
  need is 0; for a vehicle with requirements the index points to one of them, whose
  need, rate and window (containing the hour) the candidate carries.
\<close>

definition cand_ok :: "energy_needs \<Rightarrow> int \<Rightarrow> candidate \<Rightarrow> bool" where
  "cand_ok en h c =
     (case map_of en (cand_car c) of
        None \<Rightarrow> cand_need c = 0
      | Some reqs \<Rightarrow>
          0 \<le> cand_index c \<and> nat (cand_index c) < length reqs
          \<and> cand_need c = energy_kwh (reqs ! nat (cand_index c))
          \<and> cand_rate c = max_rate_kw (reqs ! nat (cand_index c))
          \<and> in_window (reqs ! nat (cand_index c)) h)"

text \<open>The flags of a state have the shape of the requirements: one flag per requirement of each vehicle.\<close>

definition flags_shape :: "energy_needs \<Rightarrow> sched_state \<Rightarrow> bool" where
  "flags_shape en st =
     (\<forall>car_id. case map_of en car_id of
        None \<Rightarrow> True
      | Some reqs \<Rightarrow>
          (case map_of (requirements_met st) car_id of
             None \<Rightarrow> False
           | Some fl \<Rightarrow> length fl = length reqs))"

text \<open>The flag of requirement \<open>i\<close> of a vehicle in a state (false when there is none).\<close>

definition flag_of :: "sched_state \<Rightarrow> string \<Rightarrow> nat \<Rightarrow> bool" where
  "flag_of st car_id i =
     (case map_of (requirements_met st) car_id of
        None \<Rightarrow> False
      | Some fl \<Rightarrow> i < length fl \<and> fl ! i)"

text \<open>
  The bookkeeping of ports: the counter of every hour is the number of sessions of that
  hour, no counter exceeds the port count, and the keys of the schedule are distinct.
\<close>

definition ports_inv :: "int \<Rightarrow> sched_state \<Rightarrow> bool" where
  "ports_inv num_ports st =
     ((\<forall>h. int (sessions_at (schedule st) h) = hour_port_count st h)
      \<and> (\<forall>h. hour_port_count st h \<le> num_ports)
      \<and> distinct (map fst (schedule st)))"

definition unique_inv :: "sched_state \<Rightarrow> bool" where
  "unique_inv st = (\<forall>car_id h. car_sessions_at (schedule st) car_id h \<le> 1)"

text \<open>Every flag that is set belongs to a requirement whose window holds at least its need.\<close>

definition satisfied_delivered :: "energy_needs \<Rightarrow> sched_state \<Rightarrow> bool" where
  "satisfied_delivered en st =
     (\<forall>car_id reqs i. map_of en car_id = Some reqs \<and> i < length reqs \<and> flag_of st car_id i \<longrightarrow>
        energy_kwh (reqs ! i) \<le> delivered (reqs ! i) (dd_value (schedule st) car_id))"

text \<open>No flag of a requirement with need 0 is set.\<close>

definition zero_unmet :: "energy_needs \<Rightarrow> sched_state \<Rightarrow> bool" where
  "zero_unmet en st =
     (\<forall>car_id reqs i. map_of en car_id = Some reqs \<and> i < length reqs
        \<and> energy_kwh (reqs ! i) = 0 \<longrightarrow> \<not> flag_of st car_id i)"

text \<open>
  A vehicle \<open>Z\<close> whose only requirement has target SoC equal to the initial SoC, hence
  need 0, with full availability in the hours 18 to 24 of its window and beyond.
\<close>

definition zero_cars :: cars_dict where
  "zero_cars = [(''Z'', \<lparr>capacity_kWh = 50, max_charge_rate_kW = 11\<rparr>)]"

definition zero_needs :: energy_needs where
  "zero_needs =
     [(''Z'', [\<lparr>day = 0, deadline_hour = 31, energy_kwh = 0, max_rate_kw = 11,
                target_soc = 0.2, prior_day_start = 18, prior_day_end = 24\<rparr>])]"

definition evening_availability :: "string list \<Rightarrow> availability" where
  "evening_availability ids = \<lparr>index = ids, columns = [18..26], cell = (\<lambda>_ _. 1)\<rparr>"

text \<open>
  Vehicle \<open>A\<close> has two requirements in the same window, with needs 10 and 5; vehicle
  \<open>B\<close> has none. One port; the frame covers the hours 18, 19 and 20.
\<close>

definition skip_cars :: cars_dict where
  "skip_cars = [(''A'', \<lparr>capacity_kWh = 50, max_charge_rate_kW = 11\<rparr>),
                (''B'', \<lparr>capacity_kWh = 50, max_charge_rate_kW = 22\<rparr>)]"

definition skip_needs :: energy_needs where
  "skip_needs =
     [(''A'', [\<lparr>day = 0, deadline_hour = 31, energy_kwh = 10, max_rate_kw = 11,
                target_soc = 0.39, prior_day_start = 18, prior_day_end = 24\<rparr>,
               \<lparr>day = 0, deadline_hour = 32, energy_kwh = 5, max_rate_kw = 11,
                target_soc = 0.295, prior_day_start = 18, prior_day_end = 24\<rparr>])]"

definition skip_availability :: availability where
  "skip_availability = \<lparr>index = [''A'', ''B''], columns = [18, 19, 20], cell = (\<lambda>_ _. 1)\<rparr>"

text \<open>The state of that run at the start of hour 19.\<close>

definition skip_state :: sched_state where
  "skip_state =
     \<lparr>schedule = [(''A'', [(18, 10, 1)])],
      requirements_met = [(''A'', [True, False])],
      hour_port_count = (\<lambda>_. 0)(18 := 1)\<rparr>"

text \<open>
  The requirement of the specification for a vehicle \<open>c\<close>, day \<open>d\<close>, hour of day
  \<open>H\<close> and target SoC \<open>t\<close>: deadline \<open>(d + 1) * 24 + H\<close>, need
  \<open>(t - initial_soc) * capacity / 0.95\<close>, window \<open>[d * 24 + 18, (d + 1) * 24)\<close>.
\<close>

definition spec_requirement :: "car \<Rightarrow> real \<Rightarrow> int \<Rightarrow> int \<Rightarrow> real \<Rightarrow> requirement" where
  "spec_requirement c initial_soc d H t =
     \<lparr>day = d,
      deadline_hour = (d + 1) * 24 + H,
      energy_kwh = (t - initial_soc) * capacity_kWh c / 0.95,
      max_rate_kw = max_charge_rate_kW c,
      target_soc = t,
      prior_day_start = d * 24 + 18,
      prior_day_end = (d + 1) * 24\<rparr>"

text \<open>The entries \<open>(day, time, target)\<close> of a vehicle, in the order of the input.\<close>

definition entries_of :: "(string \<times> (string \<times> real) list) list \<Rightarrow> (string \<times> string \<times> real) list" where
  "entries_of days = concat (map (\<lambda>d. map (\<lambda>ts. (fst d, fst ts, snd ts)) (snd d)) days)"

definition vehicle_entries :: "requirements \<Rightarrow> string \<Rightarrow> (string \<times> string \<times> real) list" where
  "vehicle_entries reqs car_id =
     (case map_of reqs car_id of None \<Rightarrow> [] | Some days \<Rightarrow> entries_of days)"

text \<open>A requirement is the one derived from an entry: the day and the hour are the parsed strings.\<close>

definition derived_from :: "car \<Rightarrow> real \<Rightarrow> string \<times> string \<times> real \<Rightarrow> requirement \<Rightarrow> bool" where
  "derived_from c initial_soc e r =
     (case py_int (fst e) of
        Inl _ \<Rightarrow> False
      | Inr d \<Rightarrow>
          (case py_int (split_colon_first (fst (snd e))) of
             Inl _ \<Rightarrow> False
           | Inr H \<Rightarrow> r = spec_requirement c initial_soc d H (snd (snd e))))"

text \<open>Decimal digits and the number they write.\<close>

definition digit_char :: "nat \<Rightarrow> char" where
  "digit_char d = ''0123456789'' ! d"

definition decimal :: "nat list \<Rightarrow> nat" where
  "decimal ds = foldl (\<lambda>a d. a * 10 + d) 0 ds"

text \<open>Inputs the deriver accepts: every vehicle with entries is in the roster, and every day and hour parses.\<close>

definition is_int :: "string \<Rightarrow> bool" where
  "is_int s = (case py_int s of Inl _ \<Rightarrow> False | Inr _ \<Rightarrow> True)"

definition inputs_ok :: "cars_dict \<Rightarrow> requirements \<Rightarrow> bool" where
  "inputs_ok cars reqs =
     list_all (\<lambda>cr. snd cr = [] \<or>
        (dict_contains cars (fst cr)
         \<and> list_all (\<lambda>d. list_all (\<lambda>ts. is_int (split_colon_first (fst ts)) \<and> is_int (fst d)) (snd d))
              (snd cr))) reqs"

section \<open>Properties\<close>

subsection \<open>Dictionaries\<close>

lemma map_of_dict_set: "map_of (dict_set k v d) = (map_of d)(k \<mapsto> v)"
  by (induction d) (auto simp: fun_eq_iff)

lemma keys_dict_set:
  "map fst (dict_set k v d) = (if dict_contains d k then map fst d else map fst d @ [k])"
  by (induction d) (auto simp: dict_contains_def)

lemma dict_contains_keys: "dict_contains d k \<longleftrightarrow> k \<in> set (map fst d)"
  by (simp add: dict_contains_def map_of_eq_None_iff)

lemma dd_value_dd_append:
  "dd_value (dd_append k x d) k' = (if k' = k then dd_value d k @ [x] else dd_value d k')"
  by (simp add: dd_value_def dd_append_def map_of_dict_set)

lemma dd_value_dd_touch: "dd_value (dd_touch k d) k' = dd_value d k'"
  by (auto simp: dd_value_def dd_touch_def dict_contains_def map_add_def split: option.splits if_splits)

lemma dict_contains_dd_append:
  "dict_contains (dd_append k x d) k' \<longleftrightarrow> k' = k \<or> dict_contains d k'"
  by (simp add: dict_contains_def dd_append_def map_of_dict_set)

lemma dict_contains_dd_touch:
  "dict_contains (dd_touch k d) k' \<longleftrightarrow> k' = k \<or> dict_contains d k'"
  by (auto simp: dict_contains_def dd_touch_def map_add_def split: option.splits)

lemma distinct_keys_dict_set: "distinct (map fst d) \<Longrightarrow> distinct (map fst (dict_set k v d))"
  by (simp add: keys_dict_set dict_contains_keys)

lemma distinct_keys_dd_append: "distinct (map fst d) \<Longrightarrow> distinct (map fst (dd_append k x d))"
  by (simp add: dd_append_def distinct_keys_dict_set)

lemma distinct_keys_dd_touch: "distinct (map fst d) \<Longrightarrow> distinct (map fst (dd_touch k d))"
  by (simp add: dd_touch_def dict_contains_keys)

lemma dd_value_in_set: "distinct (map fst d) \<Longrightarrow> (k, v) \<in> set d \<Longrightarrow> dd_value d k = v"
  by (simp add: dd_value_def)

lemma dd_value_cases: "dd_value d k = [] \<or> (k, dd_value d k) \<in> set d"
  by (auto simp: dd_value_def split: option.splits dest: map_of_SomeD)

subsection \<open>The one-vehicle scenario\<close>

lemma scenario_needs_derived:
  "calculate_energy_needs scenario_cars scenario_reqs 0.2 = Inr scenario_needs"
  by (simp add: calculate_energy_needs_def scenario_cars_def scenario_reqs_def scenario_needs_def
      py_int_def strip_def is_space_def split_colon_first_def digit_val_def dd_append_def
      dd_value_def)

lemma scenario_run_20:
  "outcome (schedule_run scenario_needs (full_availability [''car1'']) scenario_cars 1 20) =
     Inr ([(''car1'', [(18, 11, 1), (19, 11, 1)])], [(''car1'', [False])])"
  unfolding scenario_needs_def full_availability_def scenario_cars_def
  by code_simp

lemma scenario_run_21:
  "outcome (schedule_run scenario_needs (full_availability [''car1'']) scenario_cars 1 21) =
     Inr ([(''car1'', [(18, 11, 1), (19, 11, 1), (20, 182 / 19, 1)])], [(''car1'', [True])])"
  unfolding scenario_needs_def full_availability_def scenario_cars_def
  by code_simp

lemma scenario_run_168:
  "outcome (schedule_run scenario_needs (full_availability [''car1'']) scenario_cars 1 168) =
     Inr ([(''car1'', [(18, 11, 1), (19, 11, 1), (20, 182 / 19, 1)])], [(''car1'', [True])])"
  unfolding scenario_needs_def full_availability_def scenario_cars_def
  by code_simp

lemma outcome_schedule:
  "outcome (schedule_run en av cars n t) = Inr (s, m) \<Longrightarrow> schedule_charging en av cars n t = Inr s"
  by (auto simp: outcome_def schedule_charging_def split: sum.splits)

text \<open>
  Claim C1, as the code has it. In the one-vehicle scenario the deriver yields an energy
  need of \<open>(0.8 - 0.2) * 50 / 0.95 = 600/19\<close> (about 31.58 kWh), deadline hour 31 and
  window \<open>[18, 24)\<close>. With one port and full availability the scheduler gives the
  vehicle 11 kW at hours 18 and 19 and the remaining \<open>600/19 - 22 = 182/19\<close> (about
  9.58 kW) at hour 20, port 1 each time; the requirement is unmet after hour 19 and met
  after hour 20, and no session follows at hours 21 to 23 or later.
\<close>

theorem scenario_one_vehicle:
  "calculate_energy_needs scenario_cars scenario_reqs 0.2 = Inr scenario_needs
   \<and> map energy_kwh (dd_value scenario_needs ''car1'') = [600 / 19]
   \<and> \<bar>600 / 19 - 31.58\<bar> < (0.005 :: real)
   \<and> map deadline_hour (dd_value scenario_needs ''car1'') = [31]
   \<and> map (\<lambda>r. (prior_day_start r, prior_day_end r)) (dd_value scenario_needs ''car1'') = [(18, 24)]
   \<and> schedule_charging scenario_needs (full_availability [''car1'']) scenario_cars 1 168 =
       Inr [(''car1'', [(18, 11, 1), (19, 11, 1), (20, 182 / 19, 1)])]
   \<and> outcome (schedule_run scenario_needs (full_availability [''car1'']) scenario_cars 1 20) =
       Inr ([(''car1'', [(18, 11, 1), (19, 11, 1)])], [(''car1'', [False])])
   \<and> outcome (schedule_run scenario_needs (full_availability [''car1'']) scenario_cars 1 21) =
       Inr ([(''car1'', [(18, 11, 1), (19, 11, 1), (20, 182 / 19, 1)])], [(''car1'', [True])])
   \<and> outcome (schedule_run scenario_needs (full_availability [''car1'']) scenario_cars 1 168) =
       Inr ([(''car1'', [(18, 11, 1), (19, 11, 1), (20, 182 / 19, 1)])], [(''car1'', [True])])"
proof -
  have needs: "dd_value scenario_needs ''car1'' =
      [\<lparr>day = 0, deadline_hour = 31, energy_kwh = 600 / 19, max_rate_kw = 11,
        target_soc = 0.8, prior_day_start = 18, prior_day_end = 24\<rparr>]"
    by (simp add: scenario_needs_def dd_value_def)
  show ?thesis
    using scenario_needs_derived scenario_run_20 scenario_run_21 scenario_run_168
      outcome_schedule [OF scenario_run_168]
    by (simp add: needs)
qed

text \<open>
  The power at hour 20 is the remaining need, not the full rate: the schedule does not
  hold 11 kW at each of the hours 18, 19 and 20.
\<close>

theorem scenario_one_vehicle_counterexample:
  "\<not> (\<exists>sched. schedule_charging scenario_needs (full_availability [''car1'']) scenario_cars 1 168 = Inr sched
        \<and> power_at (dd_value sched ''car1'') 18 = 11
        \<and> power_at (dd_value sched ''car1'') 19 = 11
        \<and> power_at (dd_value sched ''car1'') 20 = 11)"
  using outcome_schedule [OF scenario_run_168] by (auto simp: dd_value_def)

subsection \<open>Sign of the derived energy need\<close>

lemma list_all_dict_set:
  "list_all P d \<Longrightarrow> P (k, v) \<Longrightarrow> list_all P (dict_set k v d)"
  by (induction d) auto

lemma needs_nonneg_dd_append:
  assumes "needs_nonneg en" and "0 \<le> energy_kwh r"
  shows "needs_nonneg (dd_append k r en)"
proof -
  have "list_all (\<lambda>r. 0 \<le> energy_kwh r) (dd_value en k)"
    using assms(1) dd_value_cases [of en k]
    by (auto simp: needs_nonneg_def list_all_iff)
  with assms show ?thesis
    unfolding needs_nonneg_def dd_append_def
    by (intro list_all_dict_set) auto
qed

lemma needs_of_times_nonneg:
  assumes "needs_of_times cars initial_soc car_id capacity dayS ts en = Inr en'"
    and "needs_nonneg en" and "0 \<le> capacity"
    and "list_all (\<lambda>e. initial_soc \<le> snd e) ts"
  shows "needs_nonneg en'"
  using assms
proof (induction ts arbitrary: en)
  case Nil
  then show ?case by simp
next
  case (Cons e ts)
  have nn: "\<And>t. 0 \<le> (snd e - initial_soc) * capacity / 0.95"
    using Cons.prems(3,4) by simp
  show ?case
    using Cons.prems nn
    by (auto split: sum.splits option.splits intro!: Cons.IH needs_nonneg_dd_append)
qed

lemma needs_of_days_nonneg:
  assumes "needs_of_days cars initial_soc car_id capacity days en = Inr en'"
    and "needs_nonneg en" and "0 \<le> capacity"
    and "list_all (\<lambda>d. list_all (\<lambda>e. initial_soc \<le> snd e) (snd d)) days"
  shows "needs_nonneg en'"
  using assms
proof (induction days arbitrary: en)
  case Nil
  then show ?case by simp
next
  case (Cons d days)
  from Cons.prems(1) obtain en1 where
    one: "needs_of_times cars initial_soc car_id capacity (fst d) (snd d) en = Inr en1"
    and rest: "needs_of_days cars initial_soc car_id capacity days en1 = Inr en'"
    by (auto split: sum.splits)
  have "needs_nonneg en1"
    using needs_of_times_nonneg [OF one Cons.prems(2,3)] Cons.prems(4) by simp
  then show ?case
    using Cons.IH [OF rest] Cons.prems(3,4) by simp
qed

lemma needs_of_cars_nonneg:
  assumes "needs_of_cars cars initial_soc reqs en = Inr en'"
    and "needs_nonneg en" and "capacities_nonneg cars"
    and "list_all (\<lambda>cr. list_all (\<lambda>d. list_all (\<lambda>e. initial_soc \<le> snd e) (snd d)) (snd cr)) reqs"
  shows "needs_nonneg en'"
  using assms
proof (induction reqs arbitrary: en)
  case Nil
  then show ?case by simp
next
  case (Cons cr reqs)
  show ?case
  proof (cases "snd cr = []")
    case True
    then show ?thesis using Cons by simp
  next
    case False
    with Cons.prems(1) obtain c en1 where
      c: "map_of cars (fst cr) = Some c"
      and one: "needs_of_days cars initial_soc (fst cr) (capacity_kWh c) (snd cr) en = Inr en1"
      and rest: "needs_of_cars cars initial_soc reqs en1 = Inr en'"
      by (auto split: sum.splits option.splits)
    have "0 \<le> capacity_kWh c"
      using c Cons.prems(3) by (fastforce simp: capacities_nonneg_def list_all_iff dest!: map_of_SomeD)
    then have "needs_nonneg en1"
      using needs_of_days_nonneg [OF one Cons.prems(2)] Cons.prems(4) by simp
    then show ?thesis
      using Cons.IH [OF rest] Cons.prems(3,4) by simp
  qed
qed

text \<open>
  Claim C7, as the code has it. The need is \<open>(target - initial_soc) * capacity / 0.95\<close>
  with no clamp, so it is non-negative when every target SoC lies in
  \<open>[initial_soc, 1]\<close> and no capacity is negative: then every requirement the deriver
  produces has a non-negative energy need.
\<close>

theorem needs_nonneg_above_initial:
  assumes "calculate_energy_needs cars reqs initial_soc = Inr en"
    and "targets_within initial_soc 1 reqs"
    and "capacities_nonneg cars"
  shows "needs_nonneg en"
proof -
  have "list_all (\<lambda>cr. list_all (\<lambda>d. list_all (\<lambda>e. initial_soc \<le> snd e) (snd d)) (snd cr)) reqs"
    using assms(2) by (auto simp: targets_within_def list_all_iff)
  then show ?thesis
    using needs_of_cars_nonneg [OF assms(1) [unfolded calculate_energy_needs_def] _ assms(3)]
    by (simp add: needs_nonneg_def)
qed

theorem needs_nonneg_above_initial_witness:
  "calculate_energy_needs scenario_cars scenario_reqs 0.2 = Inr scenario_needs
   \<and> targets_within 0.2 1 scenario_reqs \<and> capacities_nonneg scenario_cars
   \<and> needs_nonneg scenario_needs"
proof -
  have t: "targets_within 0.2 1 scenario_reqs"
    by (simp add: targets_within_def scenario_reqs_def)
  have c: "capacities_nonneg scenario_cars"
    by (simp add: capacities_nonneg_def scenario_cars_def)
  show ?thesis
    using needs_nonneg_above_initial [OF scenario_needs_derived t c] scenario_needs_derived t c
    by simp
qed

lemma low_target_derived:
  "calculate_energy_needs scenario_cars low_target_reqs 0.2 =
     Inr [(''car1'', [\<lparr>day = 0, deadline_hour = 31, energy_kwh = - (100 / 19), max_rate_kw = 11,
                       target_soc = 0.1, prior_day_start = 18, prior_day_end = 24\<rparr>])]"
  by (simp add: calculate_energy_needs_def scenario_cars_def low_target_reqs_def
      py_int_def strip_def is_space_def split_colon_first_def digit_val_def dd_append_def
      dd_value_def)

text \<open>
  A target SoC in \<open>[0, 1]\<close> below the initial SoC gives a negative need: target 0.1 with
  initial SoC 0.2 and 50 kWh gives \<open>- 100/19\<close> kWh.
\<close>

theorem needs_nonneg_counterexample:
  "\<not> (\<forall>cars reqs en. calculate_energy_needs cars reqs 0.2 = Inr en \<and> targets_within 0 1 reqs
         \<longrightarrow> needs_nonneg en)"
proof
  assume a: "\<forall>cars reqs en. calculate_energy_needs cars reqs 0.2 = Inr en \<and> targets_within 0 1 reqs
         \<longrightarrow> needs_nonneg en"
  have "targets_within 0 1 low_target_reqs"
    by (simp add: targets_within_def low_target_reqs_def)
  with a low_target_derived have "needs_nonneg
     [(''car1'', [\<lparr>day = 0, deadline_hour = 31, energy_kwh = - (100 / 19), max_rate_kw = 11,
                       target_soc = 0.1, prior_day_start = 18, prior_day_end = 24\<rparr>])]"
    by blast
  then show False by (simp add: needs_nonneg_def)
qed

subsection \<open>The simulator: traces and the final SoC map\<close>

lemma simulate_hours_returns:
  "capacity \<noteq> 0 \<Longrightarrow> \<exists>out'. simulate_hours en price initial_soc car_id capacity sessions hs soc out = Inr out'"
  by (induction hs arbitrary: soc out) (simp_all add: Let_def)

lemma simulate_cars_returns:
  "roster_ok cars sched \<Longrightarrow> \<exists>out'. simulate_cars cars en price initial_soc sched out = Inr out'"
proof (induction sched arbitrary: out)
  case Nil
  then show ?case by simp
next
  case (Cons cs sched)
  then obtain c where c: "map_of cars (fst cs) = Some c" "capacity_kWh c \<noteq> 0"
    and rest: "roster_ok cars sched"
    by (auto simp: roster_ok_def split: option.splits)
  obtain out1 where "simulate_hours en price initial_soc (fst cs) (capacity_kWh c) (snd cs)
       [18..167] initial_soc out = Inr out1"
    using simulate_hours_returns [OF c(2)] by blast
  then show ?case
    using Cons.IH [OF rest, of out1] c by (simp del: upto_rec_numeral)
qed

lemma simulate_hours_trace:
  assumes "simulate_hours en price initial_soc car_id capacity sessions hs soc out = Inr out'"
  shows "\<exists>rs. trace_shape rs = map (\<lambda>h. (day_of h, h, power_at sessions h)) hs
           \<and> (\<forall>k. dd_value (hourly_soc out') k =
                    (if k = car_id then dd_value (hourly_soc out) k @ rs
                     else dd_value (hourly_soc out) k))
           \<and> (\<forall>k. dict_contains (hourly_soc out') k \<longleftrightarrow>
                    dict_contains (hourly_soc out) k \<or> (k = car_id \<and> hs \<noteq> []))"
  using assms
proof (induction hs arbitrary: soc out)
  case Nil
  then show ?case by (simp add: trace_shape_def)
next
  case (Cons h hs)
  from Cons.prems obtain soc3 out2 where
    rest: "simulate_hours en price initial_soc car_id capacity sessions hs soc3 out2 = Inr out'"
    and h2: "hourly_soc out2 = dd_append car_id (day_of h, h, power_at sessions h, soc3) (hourly_soc out)"
    by (auto simp: Let_def split: if_splits)
  from Cons.IH [OF rest] obtain rs where
    rs: "trace_shape rs = map (\<lambda>h. (day_of h, h, power_at sessions h)) hs"
      "\<forall>k. dd_value (hourly_soc out') k =
             (if k = car_id then dd_value (hourly_soc out2) k @ rs else dd_value (hourly_soc out2) k)"
      "\<forall>k. dict_contains (hourly_soc out') k \<longleftrightarrow>
             dict_contains (hourly_soc out2) k \<or> (k = car_id \<and> hs \<noteq> [])"
    by blast
  let ?rs = "(day_of h, h, power_at sessions h, soc3) # rs"
  have "trace_shape ?rs = map (\<lambda>h. (day_of h, h, power_at sessions h)) (h # hs)"
    using rs(1) by (simp add: trace_shape_def)
  moreover have "\<forall>k. dd_value (hourly_soc out') k =
      (if k = car_id then dd_value (hourly_soc out) k @ ?rs else dd_value (hourly_soc out) k)"
    using rs(2) by (simp add: h2 dd_value_dd_append)
  moreover have "\<forall>k. dict_contains (hourly_soc out') k \<longleftrightarrow>
      dict_contains (hourly_soc out) k \<or> (k = car_id \<and> h # hs \<noteq> [])"
    using rs(3) by (auto simp: h2 dict_contains_dd_append)
  ultimately show ?case by blast
qed

lemma simulate_cars_trace:
  assumes "simulate_cars cars en price initial_soc sched out = Inr out'"
    and "distinct (map fst sched)"
  shows "(\<exists>rs. dd_value (hourly_soc out') k = dd_value (hourly_soc out) k @ rs
             \<and> trace_shape rs =
                 (if dict_contains sched k
                  then map (\<lambda>h. (day_of h, h, power_at (dd_value sched k) h)) [18..167] else []))
         \<and> (dict_contains (hourly_soc out') k \<longleftrightarrow>
              dict_contains (hourly_soc out) k \<or> dict_contains sched k)"
  using assms
proof (induction sched arbitrary: out)
  case Nil
  then show ?case by (simp add: trace_shape_def dict_contains_def)
next
  case (Cons cs sched)
  from Cons.prems(1) obtain c out1 where
    c: "map_of cars (fst cs) = Some c" and
    one: "simulate_hours en price initial_soc (fst cs) (capacity_kWh c) (snd cs)
            [18..167] initial_soc out = Inr out1"
    and rest: "simulate_cars cars en price initial_soc sched out1 = Inr out'"
    by (auto split: option.splits sum.splits simp del: upto_rec_numeral)
  from simulate_hours_trace [OF one] obtain r1 where
    r1: "trace_shape r1 = map (\<lambda>h. (day_of h, h, power_at (snd cs) h)) [18..167]"
      "\<forall>k. dd_value (hourly_soc out1) k =
             (if k = fst cs then dd_value (hourly_soc out) k @ r1 else dd_value (hourly_soc out) k)"
      "\<forall>k. dict_contains (hourly_soc out1) k \<longleftrightarrow>
             dict_contains (hourly_soc out) k \<or> (k = fst cs \<and> [18..167::int] \<noteq> [])"
    by blast
  from Cons.prems(2) have d: "distinct (map fst sched)" and nin: "fst cs \<notin> fst ` set sched"
    by auto
  from Cons.IH [OF rest d] obtain r2 where
    r2: "dd_value (hourly_soc out') k = dd_value (hourly_soc out1) k @ r2"
      "trace_shape r2 =
         (if dict_contains sched k
          then map (\<lambda>h. (day_of h, h, power_at (dd_value sched k) h)) [18..167] else [])"
      "dict_contains (hourly_soc out') k \<longleftrightarrow> dict_contains (hourly_soc out1) k \<or> dict_contains sched k"
    by blast
  have ne: "[18..167::int] \<noteq> []" by (simp del: upto_rec_numeral)
  show ?case
  proof (cases "k = fst cs")
    case True
    then have nk: "\<not> dict_contains sched k"
      using nin by (simp add: dict_contains_keys)
    have hd: "dict_contains (cs # sched) k" "dd_value (cs # sched) k = snd cs"
      using True by (cases cs; simp add: dict_contains_def dd_value_def)+
    have "dd_value (hourly_soc out') k = dd_value (hourly_soc out) k @ r1"
      using r2(1,2) r1(2) nk True by (simp add: trace_shape_def)
    then show ?thesis
      using r1(1) r1(3) r2(3) hd ne True by (auto simp del: upto_rec_numeral)
  next
    case False
    then have hd: "dict_contains (cs # sched) k = dict_contains sched k"
      "dd_value (cs # sched) k = dd_value sched k"
      by (cases cs; simp add: dict_contains_def dd_value_def)+
    show ?thesis
      using r2 r1(2,3) False hd by (auto simp del: upto_rec_numeral)
  qed
qed

lemma map_of_const_map:
  "map_of (map (\<lambda>kc. (fst kc, v)) d) k = (if dict_contains d k then Some v else None)"
  by (induction d) (auto simp: dict_contains_def)


lemma compute_returns:
  assumes "roster_ok cars sched"
  shows "\<exists>cost hourly. compute_costs_and_soc sched cars price en initial_soc =
           Inr (cost, map (\<lambda>kc. (fst kc, initial_soc)) cars, hourly)"
proof -
  obtain out' where "simulate_cars cars en price initial_soc sched
      \<lparr>cost_summary = [], hourly_soc = []\<rparr> = Inr out'"
    using simulate_cars_returns [OF assms] by blast
  then show ?thesis by (simp add: compute_costs_and_soc_def)
qed

lemma compute_trace:
  assumes "compute_costs_and_soc sched cars price en initial_soc = Inr (cost, fin, hourly)"
    and "distinct (map fst sched)"
  shows "if dict_contains sched car_id
         then trace_shape (dd_value hourly car_id) =
                map (\<lambda>h. (day_of h, h, power_at (dd_value sched car_id) h)) [18..167]
         else \<not> dict_contains hourly car_id"
proof -
  from assms(1) obtain out' where
    sim: "simulate_cars cars en price initial_soc sched \<lparr>cost_summary = [], hourly_soc = []\<rparr> = Inr out'"
    and h: "hourly = hourly_soc out'"
    by (auto simp: compute_costs_and_soc_def split: sum.splits)
  show ?thesis
    using simulate_cars_trace [OF sim assms(2), of car_id]
    by (auto simp: h dd_value_def dict_contains_def simp del: upto_rec_numeral)
qed

text \<open>
  Claim C8, as the code has it. The simulator iterates over the entries of the schedule
  and over the fixed hours \<open>18, \<dots>, 167\<close>. Whenever every scheduled vehicle is in the
  roster with a capacity other than 0 the simulator returns; and for a schedule with
  distinct keys, a vehicle with an entry in the schedule gets exactly one trace record
  \<open>(day, hour, power, soc)\<close> per hour of \<open>[18, 168)\<close>, in order, with the day index
  and the scheduled power of that hour, while a vehicle without an entry gets no trace.
\<close>

theorem trace_covers_scheduled_vehicles:
  "(roster_ok cars sched \<longrightarrow>
      (\<exists>r. compute_costs_and_soc sched cars price en initial_soc = Inr r))
   \<and> (compute_costs_and_soc sched cars price en initial_soc = Inr (cost, fin, hourly)
        \<and> distinct (map fst sched) \<longrightarrow>
        (if dict_contains sched car_id
         then trace_shape (dd_value hourly car_id) =
                map (\<lambda>h. (day_of h, h, power_at (dd_value sched car_id) h)) [18..167]
         else \<not> dict_contains hourly car_id))"
  using compute_returns [of cars sched price en initial_soc] compute_trace [of sched cars price en initial_soc cost fin hourly car_id]
  by blast

lemma late_session_ok: "roster_ok scenario_cars late_session"
  by (simp add: roster_ok_def scenario_cars_def late_session_def)

theorem trace_covers_scheduled_vehicles_witness:
  "roster_ok scenario_cars late_session
   \<and> (\<exists>cost fin hourly.
        compute_costs_and_soc late_session scenario_cars (\<lambda>_. None) scenario_needs 0.2 =
          Inr (cost, fin, hourly)
        \<and> trace_shape (dd_value hourly ''car1'') =
            map (\<lambda>h. (day_of h, h, power_at [(40, 11, 1)] h)) [18..167]
        \<and> \<not> dict_contains hourly ''car2'')"
proof -
  note tc = trace_covers_scheduled_vehicles
    [of scenario_cars late_session "\<lambda>_. None" scenario_needs "0.2"]
  from tc [THEN conjunct1] late_session_ok obtain r where
    "compute_costs_and_soc late_session scenario_cars (\<lambda>_. None) scenario_needs 0.2 = Inr r"
    by blast
  then obtain cost fin hourly where
    r: "compute_costs_and_soc late_session scenario_cars (\<lambda>_. None) scenario_needs 0.2 =
          Inr (cost, fin, hourly)"
    by (cases r) auto
  have d: "distinct (map fst late_session)"
    by (simp add: late_session_def)
  have c1: "dict_contains late_session ''car1''"
    and c2: "\<not> dict_contains late_session ''car2''"
    and v1: "dd_value late_session ''car1'' = [(40, 11, 1)]"
    by (simp_all add: late_session_def dict_contains_def dd_value_def)
  have "trace_shape (dd_value hourly ''car1'') =
          map (\<lambda>h. (day_of h, h, power_at (dd_value late_session ''car1'') h)) [18..167]"
    using tc [of cost fin hourly "''car1''", THEN conjunct2] r d c1
    by (simp only: if_True simp_thms)
  then have t1: "trace_shape (dd_value hourly ''car1'') =
          map (\<lambda>h. (day_of h, h, power_at [(40, 11, 1)] h)) [18..167]"
    by (simp only: v1)
  have t2: "\<not> dict_contains hourly ''car2''"
    using tc [of cost fin hourly "''car2''", THEN conjunct2] r d c2
    by (simp only: if_False simp_thms)
  show ?thesis
    using r t1 t2 late_session_ok by blast
qed

lemma two_cars_schedule:
  "schedule_charging [] one_hour_availability two_cars 1 168 = Inr [(''A'', [(18, 22, 1)])]"
  unfolding one_hour_availability_def two_cars_def
  by code_simp

text \<open>
  Two vehicles without requirements and one port: the faster vehicle \<open>A\<close> takes the
  port, \<open>B\<close> never enters the schedule, and the simulator records no trace for \<open>B\<close>
  although it is in the roster.
\<close>

theorem trace_counterexample:
  "schedule_charging [] one_hour_availability two_cars 1 168 = Inr [(''A'', [(18, 22, 1)])]
   \<and> dict_contains two_cars ''B''
   \<and> (\<exists>cost fin hourly.
        compute_costs_and_soc [(''A'', [(18, 22, 1)])] two_cars (\<lambda>_. None) [] 0.2 =
          Inr (cost, fin, hourly)
        \<and> \<not> dict_contains hourly ''B'' \<and> dd_value hourly ''B'' = [])"
proof -
  have ok: "roster_ok two_cars [(''A'', [(18, 22, 1)])]"
    by (simp add: roster_ok_def two_cars_def)
  obtain cost hourly where
    r: "compute_costs_and_soc [(''A'', [(18, 22, 1)])] two_cars (\<lambda>_. None) [] 0.2 =
          Inr (cost, map (\<lambda>kc. (fst kc, 0.2)) two_cars, hourly)"
    using compute_returns [OF ok] by blast
  have nb: "\<not> dict_contains [(''A'', [(18::int, 22::real, 1::int)])] ''B''"
    and d: "distinct (map fst [(''A'', [(18::int, 22::real, 1::int)])])"
    by (simp_all add: dict_contains_def)
  have "\<not> dict_contains hourly ''B''"
    using compute_trace [OF r d, of "''B''"] nb by (simp only: if_False simp_thms)
  moreover then have "dd_value hourly ''B'' = []"
    by (simp add: dict_contains_def dd_value_def)
  moreover have "dict_contains two_cars ''B''"
    by (simp add: dict_contains_def two_cars_def)
  ultimately show ?thesis
    using two_cars_schedule r by blast
qed

text \<open>
  Claim C9. Whenever the simulator returns, its final SoC map is the roster with every
  vehicle mapped to the initial SoC, whatever the schedule, prices and requirements are;
  and it does return whenever every scheduled vehicle is in the roster with a capacity
  other than 0.
\<close>

theorem final_soc_is_initial:
  "(roster_ok cars sched \<longrightarrow>
      (\<exists>cost hourly. compute_costs_and_soc sched cars price en initial_soc =
         Inr (cost, map (\<lambda>kc. (fst kc, initial_soc)) cars, hourly)))
   \<and> (compute_costs_and_soc sched cars price en initial_soc = Inr (cost, fin, hourly) \<longrightarrow>
        fin = map (\<lambda>kc. (fst kc, initial_soc)) cars
        \<and> (dict_contains cars car_id \<longrightarrow> map_of fin car_id = Some initial_soc))"
proof -
  have "fin = map (\<lambda>kc. (fst kc, initial_soc)) cars"
    if "compute_costs_and_soc sched cars price en initial_soc = Inr (cost, fin, hourly)"
    using that by (auto simp: compute_costs_and_soc_def split: sum.splits)
  then show ?thesis
    using compute_returns [of cars sched price en initial_soc]
    by (auto simp: map_of_const_map)
qed

theorem final_soc_is_initial_witness:
  "roster_ok scenario_cars late_session
   \<and> dict_contains scenario_cars ''car1''
   \<and> (\<exists>cost fin hourly.
        compute_costs_and_soc late_session scenario_cars (\<lambda>_. None) scenario_needs 0.2 =
          Inr (cost, fin, hourly)
        \<and> fin = [(''car1'', 0.2)] \<and> map_of fin ''car1'' = Some 0.2)"
proof -
  obtain cost hourly where
    r: "compute_costs_and_soc late_session scenario_cars (\<lambda>_. None) scenario_needs 0.2 =
          Inr (cost, map (\<lambda>kc. (fst kc, 0.2)) scenario_cars, hourly)"
    using final_soc_is_initial [of scenario_cars late_session "\<lambda>_. None" scenario_needs "0.2"]
      late_session_ok by blast
  have f: "map (\<lambda>kc. (fst kc, 0.2::real)) scenario_cars = [(''car1'', 0.2)]"
    by (simp add: scenario_cars_def)
  have "dict_contains scenario_cars ''car1''"
    by (simp add: dict_contains_def scenario_cars_def)
  then show ?thesis
    using r f late_session_ok by simp
qed

subsection \<open>The priority order of candidates\<close>

lemma cars_with_needs_mset:
  "mset (cars_with_needs cn) = mset (filter (\<lambda>c. cand_need c > 0) cn)"
  by (simp add: cars_with_needs_def cand_need_def)

lemma cars_without_needs_mset:
  "mset (cars_without_needs cn) = mset (filter (\<lambda>c. cand_need c = 0) cn)"
  by (simp add: cars_without_needs_def cand_need_def)

lemma cars_with_needs_sorted: "sorted_wrt needs_order (cars_with_needs cn)"
proof -
  let ?key = "\<lambda>c::candidate. (fst (snd (snd c)), - snd (snd (snd c)))"
  have "sorted (map ?key (cars_with_needs cn))"
    unfolding cars_with_needs_def by (rule sorted_sort_key)
  then have "sorted_wrt (\<lambda>a b. ?key a \<le> ?key b) (cars_with_needs cn)"
    by (simp add: sorted_map)
  moreover have "\<And>a b. ?key a \<le> ?key b \<Longrightarrow> needs_order a b"
    by (auto simp: needs_order_def cand_need_def cand_rate_def less_eq_prod_def)
  ultimately show ?thesis
    by (rule sorted_wrt_mono_rel [rotated]) blast
qed

lemma cars_without_needs_sorted: "sorted_wrt rate_order (cars_without_needs cn)"
proof -
  let ?key = "\<lambda>c::candidate. - snd (snd (snd c))"
  have "sorted (map ?key (cars_without_needs cn))"
    unfolding cars_without_needs_def by (rule sorted_sort_key)
  then have "sorted_wrt (\<lambda>a b. ?key a \<le> ?key b) (cars_without_needs cn)"
    by (simp add: sorted_map)
  moreover have "\<And>a b. ?key a \<le> ?key b \<Longrightarrow> rate_order a b"
    by (auto simp: rate_order_def cand_rate_def)
  ultimately show ?thesis
    by (rule sorted_wrt_mono_rel [rotated]) blast
qed

lemma contest_candidates:
  "build_car_needs contest_needs contest_cars (requirements_met (init_state contest_needs)) 18
     (available_cars contest_availability 18) = Inr [(''O'', - 1, 0, 22), (''N'', 0, 5, 7)]"
  unfolding contest_needs_def contest_cars_def contest_availability_def
  by code_simp

lemma contest_priority:
  "prioritize [(''O'', - 1, 0, 22), (''N'', 0, 5, 7)] = [(''N'', 0, 5, 7), (''O'', - 1, 0, 22)]"
  by code_simp

lemma contest_schedule:
  "schedule_charging contest_needs contest_availability contest_cars 1 168 = Inr [(''N'', [(18, 5, 1)])]"
  unfolding contest_needs_def contest_cars_def contest_availability_def
  by code_simp

text \<open>
  Claim C3. The priority list of an hour is the candidates with a positive need, sorted
  ascending by need with ties broken descending by max rate, followed by the candidates
  with need 0, sorted descending by max rate; each group holds exactly the candidates
  of its kind. In the contest of a vehicle with need 5 kWh and rate 7 kW against a
  vehicle without requirements and rate 22 kW for one port, the vehicle with the need
  comes first and gets the port (with \<open>min(7, 5) = 5\<close> kW); the other gets nothing.
\<close>

theorem priority_order:
  "prioritize cn = cars_with_needs cn @ cars_without_needs cn
   \<and> mset (cars_with_needs cn) = mset (filter (\<lambda>c. cand_need c > 0) cn)
   \<and> sorted_wrt needs_order (cars_with_needs cn)
   \<and> mset (cars_without_needs cn) = mset (filter (\<lambda>c. cand_need c = 0) cn)
   \<and> sorted_wrt rate_order (cars_without_needs cn)
   \<and> build_car_needs contest_needs contest_cars (requirements_met (init_state contest_needs)) 18
        (available_cars contest_availability 18) = Inr [(''O'', - 1, 0, 22), (''N'', 0, 5, 7)]
   \<and> prioritize [(''O'', - 1, 0, 22), (''N'', 0, 5, 7)] = [(''N'', 0, 5, 7), (''O'', - 1, 0, 22)]
   \<and> schedule_charging contest_needs contest_availability contest_cars 1 168 =
        Inr [(''N'', [(18, 5, 1)])]"
  using cars_with_needs_mset cars_without_needs_mset cars_with_needs_sorted
    cars_without_needs_sorted contest_candidates contest_priority contest_schedule
  by (simp add: prioritize_def)

subsection \<open>The scheduler step by step\<close>

lemma record_session_simps [simp]:
  "schedule (record_session c h p port st) = dd_append c (h, p, port) (schedule st)"
  "requirements_met (record_session c h p port st) = requirements_met st"
  "hour_port_count (record_session c h p port st) =
     (hour_port_count st)(h := hour_port_count st h + 1)"
  by (simp_all add: record_session_def)

lemma assign_one_cases [consumes 1, case_names opp skip take]:
  assumes "assign_one en h c st = Inr st'"
  obtains
    (opp) "cand_need c = 0"
      "st' = record_session (cand_car c) h (cand_rate c) (hour_port_count st h + 1) st"
  | (skip) d met' where "cand_need c \<noteq> 0"
      "energy_delivered en (cand_car c) (cand_index c) (dd_value (schedule st) (cand_car c)) = Inr d"
      "cand_need c \<le> d"
      "set_met (cand_car c) (cand_index c) (requirements_met st) = Inr met'"
      "st' = st\<lparr>schedule := dd_touch (cand_car c) (schedule st), requirements_met := met'\<rparr>"
  | (take) d met' where "cand_need c \<noteq> 0"
      "energy_delivered en (cand_car c) (cand_index c) (dd_value (schedule st) (cand_car c)) = Inr d"
      "d < cand_need c"
      "(if cand_need c \<le> d + min (cand_rate c) (cand_need c - d)
        then set_met (cand_car c) (cand_index c) (requirements_met st)
        else Inr (requirements_met st)) = Inr met'"
      "st' = record_session (cand_car c) h (min (cand_rate c) (cand_need c - d))
               (hour_port_count st h + 1)
               (st\<lparr>schedule := dd_touch (cand_car c) (schedule st), requirements_met := met'\<rparr>)"
proof -
  let ?ed = "energy_delivered en (cand_car c) (cand_index c) (dd_value (schedule st) (cand_car c))"
  let ?st1 = "st\<lparr>schedule := dd_touch (cand_car c) (schedule st)\<rparr>"
  let ?sm = "set_met (cand_car c) (cand_index c) (requirements_met ?st1)"
  have rm: "requirements_met ?st1 = requirements_met st" by simp
  have eq: "assign_one en h c st =
      (if cand_need c = 0
       then Inr (record_session (cand_car c) h (cand_rate c) (hour_port_count st h + 1) st)
       else (case ?ed of
               Inl e \<Rightarrow> Inl e
             | Inr d \<Rightarrow>
                 if cand_need c \<le> d
                 then (case ?sm of Inl e \<Rightarrow> Inl e
                       | Inr met' \<Rightarrow> Inr (?st1\<lparr>requirements_met := met'\<rparr>))
                 else (case (if cand_need c \<le> d + min (cand_rate c) (cand_need c - d)
                             then ?sm else Inr (requirements_met ?st1)) of
                         Inl e \<Rightarrow> Inl e
                       | Inr met' \<Rightarrow>
                           Inr (record_session (cand_car c) h (min (cand_rate c) (cand_need c - d))
                                  (hour_port_count st h + 1)
                                  (?st1\<lparr>requirements_met := met'\<rparr>)))))"
    unfolding assign_one_def Let_def cand_need_def cand_car_def cand_rate_def cand_index_def
    by (rule refl)
  show ?thesis
  proof (cases "cand_need c = 0")
    case True
    with assms eq opp show ?thesis by simp
  next
    case False
    with assms eq obtain d where d: "?ed = Inr d"
      by (cases ?ed) simp_all
    show ?thesis
    proof (cases "cand_need c \<le> d")
      case True
      with assms eq False d obtain met' where m: "?sm = Inr met'"
        by (cases ?sm) simp_all
      with assms eq False d True have "st' = ?st1\<lparr>requirements_met := met'\<rparr>"
        by simp
      with skip [OF False d True m [unfolded rm]] show ?thesis by simp
    next
      case le: False
      let ?c = "(if cand_need c \<le> d + min (cand_rate c) (cand_need c - d)
                 then ?sm else Inr (requirements_met ?st1))"
      from assms eq False d le obtain met' where m: "?c = Inr met'"
        by (cases ?c) (simp_all only: if_False sum.case sum.distinct)
      with assms eq False d le have
        "st' = record_session (cand_car c) h (min (cand_rate c) (cand_need c - d))
                 (hour_port_count st h + 1) (?st1\<lparr>requirements_met := met'\<rparr>)"
        by (simp only: if_False sum.case sum.inject)
      moreover from le have "d < cand_need c" by simp
      ultimately show ?thesis
        using take [OF False d _ m [unfolded rm]] by simp
    qed
  qed
qed

lemma assign_slots_invariant:
  assumes "assign_slots en num_ports h cs st = Inr st'"
    and "P st"
    and "\<And>c s s'. c \<in> set cs \<Longrightarrow> P s \<Longrightarrow> hour_port_count s h < num_ports \<Longrightarrow>
           assign_one en h c s = Inr s' \<Longrightarrow> P s'"
  shows "P st'"
  using assms
proof (induction cs arbitrary: st)
  case Nil
  then show ?case by simp
next
  case (Cons c cs)
  show ?case
  proof (cases "hour_port_count st h \<ge> num_ports")
    case True
    with Cons.prems show ?thesis by simp
  next
    case False
    with Cons.prems(1) obtain s1 where
      one: "assign_one en h c st = Inr s1" and rest: "assign_slots en num_ports h cs s1 = Inr st'"
      by (auto split: sum.splits)
    have p1: "P s1"
      using Cons.prems(3) [OF _ Cons.prems(2) _ one] False by simp
    show ?thesis
    proof (rule Cons.IH [OF rest p1])
      fix c' s s'
      assume "c' \<in> set cs" "P s" "hour_port_count s h < num_ports" "assign_one en h c' s = Inr s'"
      then show "P s'"
        using Cons.prems(3) [of c' s s'] by simp
    qed
  qed
qed

lemma schedule_hours_invariant:
  assumes "schedule_hours en av cars num_ports hs st = Inr st'"
    and "P st"
    and "\<And>h s s'. h \<in> set hs \<Longrightarrow> P s \<Longrightarrow> schedule_hour en av cars num_ports h s = Inr s' \<Longrightarrow> P s'"
  shows "P st'"
  using assms
proof (induction hs arbitrary: st)
  case Nil
  then show ?case by simp
next
  case (Cons h hs)
  from Cons.prems(1) obtain s1 where
    one: "schedule_hour en av cars num_ports h st = Inr s1"
    and rest: "schedule_hours en av cars num_ports hs s1 = Inr st'"
    by (auto split: sum.splits)
  have p1: "P s1"
    using Cons.prems(3) [OF _ Cons.prems(2) one] by simp
  show ?case
  proof (rule Cons.IH [OF rest p1])
    fix h' s s'
    assume "h' \<in> set hs" "P s" "schedule_hour en av cars num_ports h' s = Inr s'"
    then show "P s'"
      using Cons.prems(3) [of h' s s'] by simp
  qed
qed

lemma schedule_hour_cases [consumes 1, case_names skipped processed]:
  assumes "schedule_hour en av cars num_ports h st = Inr st'"
  obtains
    (skipped) "h \<notin> set (columns av)" "st' = st"
  | (processed) cn where "h \<in> set (columns av)"
      "build_car_needs en cars (requirements_met st) h (available_cars av h) = Inr cn"
      "assign_slots en num_ports h (py_take num_ports (prioritize cn)) st = Inr st'"
  using assms by (auto simp: schedule_hour_def split: if_splits sum.splits)

subsection \<open>Counting sessions\<close>

lemma sessions_at_dict_set:
  "sessions_at (dict_set k v d) h + length (filter (\<lambda>s. fst s = h) (dd_value d k)) =
     sessions_at d h + length (filter (\<lambda>s. fst s = h) v)"
  by (induction d) (auto simp: sessions_at_def dd_value_def)

lemma sessions_at_dd_append:
  "sessions_at (dd_append k x d) h = sessions_at d h + (if fst x = h then 1 else 0)"
  using sessions_at_dict_set [of k "dd_value d k @ [x]" d h]
  by (simp add: dd_append_def)

lemma sessions_at_dd_touch: "sessions_at (dd_touch k d) h = sessions_at d h"
  by (simp add: dd_touch_def sessions_at_def)

lemma car_sessions_at_dd_append:
  "car_sessions_at (dd_append k x d) k' h =
     car_sessions_at d k' h + (if k' = k \<and> fst x = h then 1 else 0)"
  by (simp add: car_sessions_at_def dd_value_dd_append)

lemma car_sessions_at_dd_touch: "car_sessions_at (dd_touch k d) k' h = car_sessions_at d k' h"
  by (simp add: car_sessions_at_def dd_value_dd_touch)

lemma car_sessions_le: "car_sessions_at d k h \<le> sessions_at d h"
proof -
  consider "dd_value d k = []" | "(k, dd_value d k) \<in> set d"
    using dd_value_cases [of d k] by blast
  then show ?thesis
  proof cases
    case 1
    then show ?thesis by (simp add: car_sessions_at_def)
  next
    case 2
    then have "(\<lambda>cs. length (filter (\<lambda>s. fst s = h) (snd cs))) (k, dd_value d k)
        \<in> (\<lambda>cs. length (filter (\<lambda>s. fst s = h) (snd cs))) ` set d"
      by (rule imageI)
    then have "length (filter (\<lambda>s. fst s = h) (dd_value d k))
        \<in> set (map (\<lambda>cs. length (filter (\<lambda>s. fst s = h) (snd cs))) d)"
      by simp
    then show ?thesis
      unfolding car_sessions_at_def sessions_at_def
      by (rule member_le_sum_list) simp
  qed
qed

subsection \<open>The port limit\<close>

lemma ports_inv_init: "0 \<le> num_ports \<Longrightarrow> ports_inv num_ports (init_state en)"
  by (simp add: ports_inv_def init_state_def sessions_at_def)

lemma ports_inv_assign_one:
  assumes "assign_one en h c st = Inr st'" and "ports_inv num_ports st"
    and "hour_port_count st h < num_ports"
  shows "ports_inv num_ports st'"
  using assms(1)
proof (cases rule: assign_one_cases)
  case opp
  then show ?thesis
    using assms(2,3)
    by (auto simp: ports_inv_def sessions_at_dd_append distinct_keys_dd_append)
next
  case (skip d met')
  then show ?thesis
    using assms(2)
    by (auto simp: ports_inv_def sessions_at_dd_touch distinct_keys_dd_touch)
next
  case (take d met')
  then show ?thesis
    using assms(2,3)
    by (auto simp: ports_inv_def sessions_at_dd_append sessions_at_dd_touch
        distinct_keys_dd_append distinct_keys_dd_touch)
qed

lemma ports_inv_hour:
  assumes "schedule_hour en av cars num_ports h st = Inr st'" and "ports_inv num_ports st"
  shows "ports_inv num_ports st'"
  using assms(1)
proof (cases rule: schedule_hour_cases)
  case skipped
  with assms(2) show ?thesis by simp
next
  case (processed cn)
  show ?thesis
    by (rule assign_slots_invariant [OF processed(3), where P = "ports_inv num_ports"])
      (auto intro: assms(2) ports_inv_assign_one)
qed

lemma ports_inv_hours:
  assumes "schedule_hours en av cars num_ports hs st = Inr st'" and "ports_inv num_ports st"
  shows "ports_inv num_ports st'"
  by (rule schedule_hours_invariant [OF assms(1), where P = "ports_inv num_ports"])
    (auto intro: assms(2) ports_inv_hour)

lemma counter_other_assign_one:
  assumes "assign_one en h c st = Inr st'" and "h' \<noteq> h"
  shows "hour_port_count st' h' = hour_port_count st h'"
  using assms(1) by (cases rule: assign_one_cases) (use assms(2) in auto)

lemma counter_other_hour:
  assumes "schedule_hour en av cars num_ports h st = Inr st'" and "h' \<noteq> h"
  shows "hour_port_count st' h' = hour_port_count st h'"
  using assms(1)
proof (cases rule: schedule_hour_cases)
  case skipped
  then show ?thesis by simp
next
  case (processed cn)
  show ?thesis
    by (rule assign_slots_invariant [OF processed(3),
          where P = "\<lambda>s. hour_port_count s h' = hour_port_count st h'"])
      (auto simp: counter_other_assign_one [OF _ assms(2)])
qed

lemma build_car_needs_cars:
  assumes "build_car_needs en cars met h cs = Inr cn"
  shows "set (map fst cn) \<subseteq> set cs \<and> (distinct cs \<longrightarrow> distinct (map fst cn))"
  using assms
proof (induction cs arbitrary: cn)
  case Nil
  then show ?case by simp
next
  case (Cons car_id cs)
  from Cons.prems consider
    (drop) "build_car_needs en cars met h cs = Inr cn"
  | (keep) c cn' where "build_car_needs en cars met h cs = Inr cn'" "cn = (car_id, c) # cn'"
    by (auto split: option.splits sum.splits)
  then show ?case
  proof cases
    case drop
    from Cons.IH [OF drop] show ?thesis by auto
  next
    case keep
    from Cons.IH [OF keep(1)] keep(2) show ?thesis by auto
  qed
qed

lemma prioritize_mset:
  "mset (prioritize cn) = mset (filter (\<lambda>c. 0 \<le> cand_need c) cn)"
proof -
  have "mset (filter (\<lambda>c. 0 < cand_need c) cn) + mset (filter (\<lambda>c. cand_need c = 0) cn) =
        mset (filter (\<lambda>c. 0 \<le> cand_need c) cn)"
    by (induction cn) auto
  then show ?thesis
    by (simp add: prioritize_def cars_with_needs_mset cars_without_needs_mset)
qed

lemma prioritize_set: "set (prioritize cn) \<subseteq> set cn"
  using prioritize_mset [of cn] by (metis filter_is_subset mset_eq_setD)

lemma prioritize_distinct:
  assumes "distinct (map fst cn)"
  shows "distinct (map fst (prioritize cn))"
proof -
  have "mset (map fst (prioritize cn)) = mset (map fst (filter (\<lambda>c. 0 \<le> cand_need c) cn))"
    using prioritize_mset [of cn] by (metis mset_map)
  moreover have "distinct (map fst (filter (\<lambda>c. 0 \<le> cand_need c) cn))"
    using assms by (rule distinct_map_filter)
  ultimately show ?thesis
    by (metis mset_eq_imp_distinct_iff)
qed

lemma py_take_set: "set (py_take n xs) \<subseteq> set xs"
  by (auto simp: py_take_def dest: in_set_takeD)

lemma py_take_distinct: "distinct (map f xs) \<Longrightarrow> distinct (map f (py_take n xs))"
  by (simp add: py_take_def take_map [symmetric])

lemma unique_assign_slots:
  assumes "assign_slots en num_ports h cs st = Inr st'"
    and "distinct (map fst cs)" and "unique_inv st"
    and "\<forall>c\<in>set cs. car_sessions_at (schedule st) (fst c) h = 0"
  shows "unique_inv st'"
  using assms
proof (induction cs arbitrary: st)
  case Nil
  then show ?case by simp
next
  case (Cons c cs)
  show ?case
  proof (cases "hour_port_count st h \<ge> num_ports")
    case True
    with Cons.prems show ?thesis by simp
  next
    case False
    with Cons.prems(1) obtain s1 where
      one: "assign_one en h c st = Inr s1" and rest: "assign_slots en num_ports h cs s1 = Inr st'"
      by (auto split: sum.splits)
    have c0: "car_sessions_at (schedule st) (fst c) h = 0"
      using Cons.prems(4) by simp
    have others: "\<forall>c'\<in>set cs. fst c' \<noteq> fst c"
      using Cons.prems(2) by (auto simp: image_iff)
    have step: "unique_inv s1 \<and> (\<forall>c'\<in>set cs. car_sessions_at (schedule s1) (fst c') h = 0)"
      using one
    proof (cases rule: assign_one_cases)
      case opp
      then show ?thesis
        using Cons.prems(3,4) c0 others
        by (auto simp: unique_inv_def car_sessions_at_dd_append cand_car_def)
    next
      case (skip d met')
      then show ?thesis
        using Cons.prems(3,4)
        by (auto simp: unique_inv_def car_sessions_at_dd_touch)
    next
      case (take d met')
      then show ?thesis
        using Cons.prems(3,4) c0 others
        by (auto simp: unique_inv_def car_sessions_at_dd_append car_sessions_at_dd_touch cand_car_def)
    qed
    show ?thesis
      using Cons.IH [OF rest] Cons.prems(2) step by simp
  qed
qed

lemma unique_hour:
  assumes "schedule_hour en av cars num_ports h st = Inr st'"
    and "distinct (index av)" and "unique_inv st" and "ports_inv num_ports st"
    and "hour_port_count st h = 0"
  shows "unique_inv st'"
  using assms(1)
proof (cases rule: schedule_hour_cases)
  case skipped
  with assms(3) show ?thesis by simp
next
  case (processed cn)
  have "distinct (available_cars av h)"
    using assms(2) by (simp add: available_cars_def)
  then have "distinct (map fst cn)"
    using build_car_needs_cars [OF processed(2)] by simp
  then have d: "distinct (map fst (py_take num_ports (prioritize cn)))"
    by (intro py_take_distinct prioritize_distinct)
  have "sessions_at (schedule st) h = 0"
    using assms(4,5) by (simp add: ports_inv_def) (metis of_nat_eq_0_iff)
  then have "car_sessions_at (schedule st) car_id h = 0" for car_id
    using car_sessions_le [of "schedule st" car_id h] by simp
  then show ?thesis
    using unique_assign_slots [OF processed(3) d assms(3)] by simp
qed

lemma unique_hours:
  assumes "schedule_hours en av cars num_ports hs st = Inr st'"
    and "distinct (index av)" and "distinct hs"
    and "unique_inv st" and "ports_inv num_ports st"
    and "\<forall>h\<in>set hs. hour_port_count st h = 0"
  shows "unique_inv st'"
  using assms
proof (induction hs arbitrary: st)
  case Nil
  then show ?case by simp
next
  case (Cons h hs)
  from Cons.prems(1) obtain s1 where
    one: "schedule_hour en av cars num_ports h st = Inr s1"
    and rest: "schedule_hours en av cars num_ports hs s1 = Inr st'"
    by (auto split: sum.splits)
  have u1: "unique_inv s1"
    using unique_hour [OF one Cons.prems(2,4,5)] Cons.prems(6) by simp
  have p1: "ports_inv num_ports s1"
    using ports_inv_hour [OF one Cons.prems(5)] .
  have z1: "\<forall>h'\<in>set hs. hour_port_count s1 h' = 0"
  proof
    fix h' assume h': "h' \<in> set hs"
    with Cons.prems(3) have "h' \<noteq> h" by auto
    then show "hour_port_count s1 h' = 0"
      using counter_other_hour [OF one, of h'] Cons.prems(6) h' by simp
  qed
  show ?case
    using Cons.IH [OF rest Cons.prems(2) _ u1 p1 z1] Cons.prems(3) by simp
qed

text \<open>
  Claim C2. Whenever the scheduler returns a schedule, for a port count that is not
  negative, the schedule holds at most \<open>num_ports\<close> sessions at any hour, summed over
  all vehicles; its keys are distinct; and, the vehicles of the availability frame being
  distinct, each vehicle has at most one session at any hour.
\<close>

theorem port_limit:
  assumes "schedule_charging en av cars num_ports total_hours = Inr sched"
    and "0 \<le> num_ports"
  shows "int (sessions_at sched h) \<le> num_ports
         \<and> distinct (map fst sched)
         \<and> (distinct (index av) \<longrightarrow> car_sessions_at sched car_id h \<le> 1)"
proof -
  from assms(1) obtain st where
    run: "schedule_hours en av cars num_ports [18..total_hours - 1] (init_state en) = Inr st"
    and s: "sched = schedule st"
    by (auto simp: schedule_charging_def schedule_run_def split: sum.splits)
  have p: "ports_inv num_ports st"
    using ports_inv_hours [OF run ports_inv_init [OF assms(2)]] .
  have u: "unique_inv st" if "distinct (index av)"
    using unique_hours [OF run that _ _ ports_inv_init [OF assms(2)]]
    by (simp add: unique_inv_def car_sessions_at_def init_state_def dd_value_def)
  from p have "int (sessions_at sched h) \<le> num_ports" "distinct (map fst sched)"
    by (simp_all add: ports_inv_def s)
  with u show ?thesis
    by (auto simp: unique_inv_def s)
qed

theorem port_limit_witness:
  "schedule_charging contest_needs contest_availability contest_cars 1 168 =
     Inr [(''N'', [(18, 5, 1)])]
   \<and> distinct (index contest_availability)
   \<and> int (sessions_at [(''N'', [(18, 5, 1)])] 18) \<le> 1
   \<and> distinct (map fst [(''N'', [(18 :: int, 5 :: real, 1 :: int)])])
   \<and> car_sessions_at [(''N'', [(18, 5, 1)])] ''N'' 18 \<le> 1"
proof -
  have d: "distinct (index contest_availability)"
    by (simp add: contest_availability_def)
  show ?thesis
    using port_limit [OF contest_schedule, of 18 "''N''"] contest_schedule d
    by simp
qed

subsection \<open>Candidates and the shape of the flags\<close>

lemma py_norm_index_nat: "0 \<le> i \<Longrightarrow> nat i < n \<Longrightarrow> py_norm_index n i = Some (nat i)"
  by (auto simp: py_norm_index_def)

lemma py_index_nat: "0 \<le> i \<Longrightarrow> nat i < length xs \<Longrightarrow> py_index xs i = Inr (xs ! nat i)"
  by (simp add: py_index_def py_norm_index_nat)

lemma py_index_Inr:
  "py_index xs i = Inr x \<Longrightarrow> 0 \<le> i \<Longrightarrow> nat i < length xs \<and> x = xs ! nat i"
  by (auto simp: py_index_def py_norm_index_def split: if_splits option.splits)

lemma find_req_Some:
  assumes "find_req h i reqs flags = Inr (Some (j, r))" and "0 \<le> i"
  shows "i \<le> j \<and> nat (j - i) < length reqs \<and> r = reqs ! nat (j - i) \<and> in_window r h
         \<and> (\<exists>fl. flags = Some fl \<and> nat j < length fl \<and> \<not> fl ! nat j)
         \<and> (\<forall>k. i \<le> k \<and> k < j \<longrightarrow>
               (\<exists>fl. flags = Some fl \<and> nat k < length fl
                  \<and> (fl ! nat k \<or> \<not> in_window (reqs ! nat (k - i)) h)))"
  using assms
proof (induction reqs arbitrary: i)
  case Nil
  then show ?case by simp
next
  case (Cons r0 reqs)
  from Cons.prems(1) obtain fl m where fl: "flags = Some fl" and m: "py_index fl i = Inr m"
    by (auto split: option.splits sum.splits)
  from py_index_Inr [OF m Cons.prems(2)] have mi: "nat i < length fl" "m = fl ! nat i"
    by simp_all
  show ?case
  proof (cases "\<not> m \<and> prior_day_start r0 \<le> h \<and> h < prior_day_end r0")
    case True
    with Cons.prems(1) fl m have "j = i" "r = r0"
      by simp_all
    with True fl mi show ?thesis
      by (auto simp: in_window_def)
  next
    case False
    with Cons.prems(1) fl m have rest: "find_req h (i + 1) reqs flags = Inr (Some (j, r))"
      by auto
    have i1: "0 \<le> i + 1" using Cons.prems(2) by simp
    from Cons.IH [OF rest i1] have ih:
      "i + 1 \<le> j" "nat (j - (i + 1)) < length reqs" "r = reqs ! nat (j - (i + 1))" "in_window r h"
      "\<exists>fl. flags = Some fl \<and> nat j < length fl \<and> \<not> fl ! nat j"
      "\<forall>k. i + 1 \<le> k \<and> k < j \<longrightarrow>
          (\<exists>fl. flags = Some fl \<and> nat k < length fl
             \<and> (fl ! nat k \<or> \<not> in_window (reqs ! nat (k - (i + 1))) h))"
      by blast+
    have idx: "nat (j - i) = Suc (nat (j - (i + 1)))"
      using ih(1) by linarith
    have "\<exists>fl. flags = Some fl \<and> nat k < length fl
             \<and> (fl ! nat k \<or> \<not> in_window ((r0 # reqs) ! nat (k - i)) h)"
      if k: "i \<le> k" "k < j" for k
    proof (cases "k = i")
      case True
      with False fl mi show ?thesis
        by (auto simp: in_window_def)
    next
      case ne: False
      with k have k1: "i + 1 \<le> k" by simp
      then have "nat (k - i) = Suc (nat (k - (i + 1)))" by linarith
      with ih(6) k1 k(2) show ?thesis by auto
    qed
    with ih idx show ?thesis
      by auto
  qed
qed

lemma build_car_needs_ok:
  assumes "build_car_needs en cars met h cs = Inr cn"
  shows "\<forall>c\<in>set cn. cand_ok en h c"
  using assms
proof (induction cs arbitrary: cn)
  case Nil
  then show ?case by simp
next
  case (Cons car_id cs)
  show ?case
  proof (cases "map_of en car_id")
    case None
    with Cons.prems obtain c cn' where
      c: "map_of cars car_id = Some c"
      and rest: "build_car_needs en cars met h cs = Inr cn'"
      and cn: "cn = (car_id, - 1, 0, max_charge_rate_kW c) # cn'"
      by (auto split: option.splits sum.splits)
    have "cand_ok en h (car_id, - 1, 0, max_charge_rate_kW c)"
      using None by (simp add: cand_ok_def cand_car_def cand_need_def)
    with Cons.IH [OF rest] cn show ?thesis by simp
  next
    case (Some reqs)
    with Cons.prems obtain res where
      fr: "find_req h 0 reqs (map_of met car_id) = Inr res"
      by (auto split: sum.splits)
    show ?thesis
    proof (cases res)
      case None
      with Cons.prems Some fr have "build_car_needs en cars met h cs = Inr cn"
        by simp
      from Cons.IH [OF this] show ?thesis .
    next
      case (Some ir)
      obtain j r where ir: "ir = (j, r)" by (cases ir)
      with Cons.prems \<open>map_of en car_id = Some reqs\<close> fr Some obtain cn' where
        rest: "build_car_needs en cars met h cs = Inr cn'"
        and cn: "cn = (car_id, j, energy_kwh r, max_rate_kw r) # cn'"
        by (auto split: sum.splits)
      from find_req_Some [OF fr [unfolded Some ir] order_refl] have
        "0 \<le> j" "nat j < length reqs" "r = reqs ! nat j" "in_window r h"
        unfolding diff_zero by blast+
      then have "cand_ok en h (car_id, j, energy_kwh r, max_rate_kw r)"
        using \<open>map_of en car_id = Some reqs\<close>
        by (simp add: cand_ok_def cand_car_def cand_need_def cand_index_def cand_rate_def)
      with Cons.IH [OF rest] cn show ?thesis by simp
    qed
  qed
qed

lemma schedule_hour_invariant:
  assumes "schedule_hour en av cars num_ports h st = Inr st'"
    and "P st"
    and "\<And>c s s'. cand_ok en h c \<Longrightarrow> P s \<Longrightarrow> hour_port_count s h < num_ports \<Longrightarrow>
           assign_one en h c s = Inr s' \<Longrightarrow> P s'"
  shows "P st'"
  using assms(1)
proof (cases rule: schedule_hour_cases)
  case skipped
  with assms(2) show ?thesis by simp
next
  case (processed cn)
  have ok: "cand_ok en h c" if "c \<in> set (py_take num_ports (prioritize cn))" for c
    using that py_take_set [of num_ports "prioritize cn"] prioritize_set [of cn]
      build_car_needs_ok [OF processed(2)] by auto
  show ?thesis
  proof (rule assign_slots_invariant [OF processed(3), where P = P])
    show "P st" by (rule assms(2))
  next
    fix c s s'
    assume "c \<in> set (py_take num_ports (prioritize cn))" "P s"
      "hour_port_count s h < num_ports" "assign_one en h c s = Inr s'"
    then show "P s'"
      using assms(3) [of c s s'] ok by simp
  qed
qed

lemma schedule_run_invariant:
  assumes "schedule_run en av cars num_ports total_hours = Inr st"
    and "P (init_state en)"
    and "\<And>h c s s'. cand_ok en h c \<Longrightarrow> P s \<Longrightarrow> assign_one en h c s = Inr s' \<Longrightarrow> P s'"
  shows "P st"
proof (rule schedule_hours_invariant [OF assms(1) [unfolded schedule_run_def], where P = P])
  show "P (init_state en)" by (rule assms(2))
next
  fix h s s'
  assume "P s" "schedule_hour en av cars num_ports h s = Inr s'"
  then show "P s'"
    using schedule_hour_invariant [where P = P] assms(3) by blast
qed

lemma energy_delivered_ok:
  assumes "map_of en car_id = Some reqs" and "0 \<le> i" and "nat i < length reqs"
  shows "energy_delivered en car_id i ss = Inr (delivered (reqs ! nat i) ss)"
proof (cases "ss = []")
  case True
  then show ?thesis by (simp add: energy_delivered_def delivered_def)
next
  case False
  have "py_index (dd_value en car_id) i = Inr (reqs ! nat i)"
    using assms by (simp add: dd_value_def py_index_nat)
  with False show ?thesis
    by (simp add: energy_delivered_def delivered_def)
qed

lemma set_met_ok:
  assumes "map_of met car_id = Some fl" and "0 \<le> i" and "nat i < length fl"
  shows "set_met car_id i met = Inr (dict_set car_id (fl[nat i := True]) met)"
  using assms by (simp add: set_met_def py_norm_index_nat)

lemma set_met_Inr:
  assumes "set_met car_id i met = Inr met'" and "0 \<le> i"
  shows "\<exists>fl. map_of met car_id = Some fl \<and> nat i < length fl
           \<and> map_of met' = (map_of met)(car_id \<mapsto> fl[nat i := True])"
  using assms
  by (auto simp: set_met_def py_norm_index_def map_of_dict_set split: option.splits if_splits)

lemma flags_shape_iff:
  "flags_shape en st \<longleftrightarrow>
     (\<forall>car_id reqs. map_of en car_id = Some reqs \<longrightarrow>
        (\<exists>fl. map_of (requirements_met st) car_id = Some fl \<and> length fl = length reqs))"
  unfolding flags_shape_def
proof (intro iffI allI impI)
  fix car_id reqs
  assume a: "\<forall>car_id. case map_of en car_id of None \<Rightarrow> True
      | Some reqs \<Rightarrow> (case map_of (requirements_met st) car_id of None \<Rightarrow> False
                      | Some fl \<Rightarrow> length fl = length reqs)"
    and r: "map_of en car_id = Some reqs"
  from a [rule_format, of car_id] r
  show "\<exists>fl. map_of (requirements_met st) car_id = Some fl \<and> length fl = length reqs"
    by (cases "map_of (requirements_met st) car_id") simp_all
next
  fix car_id
  assume a: "\<forall>car_id reqs. map_of en car_id = Some reqs \<longrightarrow>
        (\<exists>fl. map_of (requirements_met st) car_id = Some fl \<and> length fl = length reqs)"
  show "case map_of en car_id of None \<Rightarrow> True
      | Some reqs \<Rightarrow> (case map_of (requirements_met st) car_id of None \<Rightarrow> False
                      | Some fl \<Rightarrow> length fl = length reqs)"
  proof (cases "map_of en car_id")
    case None
    then show ?thesis by simp
  next
    case (Some reqs)
    with a obtain fl where "map_of (requirements_met st) car_id = Some fl" "length fl = length reqs"
      by blast
    with Some show ?thesis by simp
  qed
qed

lemma flags_shape_init: "flags_shape en (init_state en)"
proof -
  have "map_of (map (\<lambda>cr. (fst cr, replicate (length (snd cr)) False)) en) k =
        map_option (\<lambda>reqs. replicate (length reqs) False) (map_of en k)" for k
    by (induction en) auto
  then show ?thesis
    by (auto simp: flags_shape_iff init_state_def)
qed

lemma flags_shape_assign_one:
  assumes "assign_one en h c st = Inr st'" and "flags_shape en st" and "cand_ok en h c"
  shows "flags_shape en st'"
proof -
  have upd: "flags_shape en (s\<lparr>requirements_met := met'\<rparr>)"
    if "set_met (cand_car c) (cand_index c) (requirements_met s) = Inr met'"
      and "flags_shape en s" and "cand_need c \<noteq> 0" for s met'
  proof -
    from assms(3) that(3) have "0 \<le> cand_index c \<or> map_of en (cand_car c) = None"
      by (auto simp: cand_ok_def split: option.splits)
    then show ?thesis
    proof
      assume "0 \<le> cand_index c"
      from set_met_Inr [OF that(1) this] obtain fl where
        fl: "map_of (requirements_met s) (cand_car c) = Some fl"
        and m': "map_of met' = (map_of (requirements_met s))
                   (cand_car c \<mapsto> fl[nat (cand_index c) := True])"
        by blast
      show ?thesis
        unfolding flags_shape_iff
      proof (intro allI impI)
        fix car_id reqs
        assume r: "map_of en car_id = Some reqs"
        with that(2) obtain fl0 where
          f0: "map_of (requirements_met s) car_id = Some fl0" "length fl0 = length reqs"
          unfolding flags_shape_iff by blast
        show "\<exists>fl. map_of (requirements_met (s\<lparr>requirements_met := met'\<rparr>)) car_id = Some fl
                  \<and> length fl = length reqs"
        proof (cases "car_id = cand_car c")
          case True
          with fl f0 m' show ?thesis by simp
        next
          case False
          with f0 m' show ?thesis by simp
        qed
      qed
    next
      assume n: "map_of en (cand_car c) = None"
      with assms(3) that(3) show ?thesis by (simp add: cand_ok_def)
    qed
  qed
  from assms(1) show ?thesis
  proof (cases rule: assign_one_cases)
    case opp
    with assms(2) show ?thesis by (simp add: flags_shape_iff)
  next
    case (skip d met')
    have "flags_shape en (st\<lparr>requirements_met := met'\<rparr>)"
      using upd [OF skip(4) assms(2) skip(1)] .
    with skip(5) show ?thesis by (simp add: flags_shape_iff)
  next
    case (take d met')
    have "flags_shape en (st\<lparr>requirements_met := met'\<rparr>)"
    proof (cases "cand_need c \<le> d + min (cand_rate c) (cand_need c - d)")
      case True
      with take(4) have "set_met (cand_car c) (cand_index c) (requirements_met st) = Inr met'"
        by (simp only: if_True)
      from upd [OF this assms(2) take(1)] show ?thesis .
    next
      case False
      with take(4) have "requirements_met st = met'"
        by (simp only: if_False sum.inject)
      with assms(2) show ?thesis by (auto simp: flags_shape_iff)
    qed
    with take(5) show ?thesis by (simp add: flags_shape_iff)
  qed
qed

lemma flags_shape_run:
  assumes "schedule_run en av cars num_ports total_hours = Inr st"
  shows "flags_shape en st"
  by (rule schedule_run_invariant [OF assms, where P = "flags_shape en"])
    (auto intro: flags_shape_init flags_shape_assign_one)

subsection \<open>Satisfaction flags and delivered energy\<close>

lemma flag_of_init: "\<not> flag_of (init_state en) car_id i"
proof -
  have "map_of (map (\<lambda>cr. (fst cr, replicate (length (snd cr)) False)) en) k =
        map_option (\<lambda>reqs. replicate (length reqs) False) (map_of en k)" for k
    by (induction en) auto
  then show ?thesis
    by (auto simp: flag_of_def init_state_def split: option.splits)
qed

lemma flag_of_set_met:
  assumes "set_met car_id idx (requirements_met st) = Inr met'" and "0 \<le> idx"
    and "requirements_met st' = met'"
  shows "flag_of st' car' i \<longleftrightarrow> flag_of st car' i \<or> (car' = car_id \<and> i = nat idx)"
proof -
  from set_met_Inr [OF assms(1,2)] obtain fl where
    fl: "map_of (requirements_met st) car_id = Some fl" "nat idx < length fl"
    and m': "map_of met' = (map_of (requirements_met st))(car_id \<mapsto> fl[nat idx := True])"
    by blast
  show ?thesis
  proof (cases "car' = car_id")
    case True
    with fl m' assms(3) show ?thesis
      by (auto simp: flag_of_def nth_list_update)
  next
    case False
    with m' assms(3) show ?thesis
      by (simp add: flag_of_def)
  qed
qed

lemma flag_of_same:
  "requirements_met st' = requirements_met st \<Longrightarrow> flag_of st' car' i = flag_of st car' i"
  by (simp add: flag_of_def)

lemma cand_ok_in:
  assumes "cand_ok en h c" and "map_of en (cand_car c) = Some reqs"
  shows "0 \<le> cand_index c" "nat (cand_index c) < length reqs"
    "cand_need c = energy_kwh (reqs ! nat (cand_index c))"
    "cand_rate c = max_rate_kw (reqs ! nat (cand_index c))"
    "in_window (reqs ! nat (cand_index c)) h"
  using assms by (simp_all add: cand_ok_def)

lemma cand_ok_out:
  assumes "cand_ok en h c" and "map_of en (cand_car c) = None"
  shows "cand_need c = 0"
  using assms by (simp add: cand_ok_def)

lemma cand_ok_index: "cand_ok en h c \<Longrightarrow> cand_need c \<noteq> 0 \<Longrightarrow> 0 \<le> cand_index c"
  by (auto simp: cand_ok_def split: option.splits)

text \<open>The flags an assignment step can set.\<close>

lemma assign_one_flags:
  assumes "assign_one en h c st = Inr st'" and "cand_ok en h c"
  shows "flag_of st' car' i \<longrightarrow>
           flag_of st car' i \<or> (car' = cand_car c \<and> i = nat (cand_index c) \<and> cand_need c \<noteq> 0)"
  using assms(1)
proof (cases rule: assign_one_cases)
  case opp
  then show ?thesis by (simp add: flag_of_def)
next
  case (skip d met')
  have "requirements_met st' = met'" using skip(5) by simp
  from flag_of_set_met [OF skip(4) cand_ok_index [OF assms(2) skip(1)] this] skip(1)
  show ?thesis by simp
next
  case (take d met')
  have r: "requirements_met st' = met'" using take(5) by simp
  show ?thesis
  proof (cases "cand_need c \<le> d + min (cand_rate c) (cand_need c - d)")
    case True
    with take(4) have "set_met (cand_car c) (cand_index c) (requirements_met st) = Inr met'"
      by (simp only: if_True)
    from flag_of_set_met [OF this cand_ok_index [OF assms(2) take(1)] r] take(1)
    show ?thesis by simp
  next
    case False
    with take(4) have "requirements_met st = met'"
      by (simp only: if_False sum.inject)
    with r show ?thesis by (simp add: flag_of_def)
  qed
qed

lemma zero_unmet_assign_one:
  assumes "assign_one en h c st = Inr st'" and "cand_ok en h c" and "zero_unmet en st"
  shows "zero_unmet en st'"
  unfolding zero_unmet_def
proof (intro allI impI notI, elim conjE)
  fix car_id reqs i
  assume r: "map_of en car_id = Some reqs" "i < length reqs" "energy_kwh (reqs ! i) = 0"
    and f: "flag_of st' car_id i"
  from assms(3) r have "\<not> flag_of st car_id i"
    by (auto simp: zero_unmet_def)
  with assign_one_flags [OF assms(1,2), of car_id i] f have
    c: "car_id = cand_car c" "i = nat (cand_index c)" "cand_need c \<noteq> 0"
    by auto
  from cand_ok_in(3) [OF assms(2) r(1) [unfolded c(1)]] c r(3) show False
    by simp
qed

lemma zero_unmet_run:
  assumes "schedule_run en av cars num_ports total_hours = Inr st"
  shows "zero_unmet en st"
proof (rule schedule_run_invariant [OF assms, where P = "zero_unmet en"])
  show "zero_unmet en (init_state en)"
    by (simp add: zero_unmet_def flag_of_init)
next
  fix h c s s'
  assume "cand_ok en h c" "zero_unmet en s" "assign_one en h c s = Inr s'"
  then show "zero_unmet en s'"
    using zero_unmet_assign_one by blast
qed

lemma delivered_append:
  "delivered r (ss @ [s]) = delivered r ss + (if in_window r (fst s) then fst (snd s) else 0)"
  by (simp add: delivered_def in_window_def)

lemma rates_nonneg_nth:
  assumes "rates_nonneg en" and "map_of en car_id = Some reqs" and "i < length reqs"
  shows "0 \<le> max_rate_kw (reqs ! i)"
proof -
  from assms(2) have "(car_id, reqs) \<in> set en" by (rule map_of_SomeD)
  with assms(1) have "list_all (\<lambda>r. 0 \<le> max_rate_kw r) reqs"
    by (auto simp: rates_nonneg_def list_all_iff)
  with assms(3) show ?thesis
    by (simp add: list_all_length)
qed

lemma satisfied_delivered_assign_one:
  assumes one: "assign_one en h c st = Inr st'" and ok: "cand_ok en h c"
    and inv: "satisfied_delivered en st" and rn: "rates_nonneg en"
  shows "satisfied_delivered en st'"
  unfolding satisfied_delivered_def
proof (intro allI impI, elim conjE)
  fix car_id reqs i
  assume r: "map_of en car_id = Some reqs" "i < length reqs" and f: "flag_of st' car_id i"
  let ?ss = "dd_value (schedule st) car_id"
  let ?ss' = "dd_value (schedule st') car_id"
  have old: "energy_kwh (reqs ! i) \<le> delivered (reqs ! i) ?ss" if "flag_of st car_id i"
    using inv r that by (auto simp: satisfied_delivered_def)
  have new: "car_id = cand_car c \<and> i = nat (cand_index c) \<and> cand_need c \<noteq> 0"
    if "\<not> flag_of st car_id i"
    using assign_one_flags [OF one ok, of car_id i] f that by blast
  from one show "energy_kwh (reqs ! i) \<le> delivered (reqs ! i) ?ss'"
  proof (cases rule: assign_one_cases)
    case opp
    have fl: "flag_of st car_id i"
      using new opp(1) by blast
    have "delivered (reqs ! i) ?ss \<le> delivered (reqs ! i) ?ss'"
    proof (cases "car_id = cand_car c")
      case True
      with ok r(1) have "cand_rate c = max_rate_kw (reqs ! nat (cand_index c))"
        "nat (cand_index c) < length reqs"
        using cand_ok_in by blast+
      then have "0 \<le> cand_rate c"
        using rates_nonneg_nth [OF rn r(1)] by simp
      with True opp(2) show ?thesis
        by (simp add: dd_value_dd_append delivered_append)
    next
      case False
      with opp(2) show ?thesis
        by (simp add: dd_value_dd_append)
    qed
    with old [OF fl] show ?thesis by simp
  next
    case (skip d met')
    have same: "?ss' = ?ss"
      using skip(5) by (simp add: dd_value_dd_touch)
    show ?thesis
    proof (cases "flag_of st car_id i")
      case True
      with old same show ?thesis by simp
    next
      case False
      from new [OF False] have c: "car_id = cand_car c" "i = nat (cand_index c)" by simp_all
      from cand_ok_in [OF ok r(1) [unfolded c(1)]] have
        ci: "0 \<le> cand_index c" "nat (cand_index c) < length reqs"
          "cand_need c = energy_kwh (reqs ! nat (cand_index c))"
        by simp_all
      from energy_delivered_ok [OF r(1) [unfolded c(1)] ci(1,2)] skip(2)
      have "d = delivered (reqs ! i) ?ss"
        by (simp add: c)
      with skip(3) ci(3) same c show ?thesis by simp
    qed
  next
    case (take d met')
    let ?p = "min (cand_rate c) (cand_need c - d)"
    have sched: "?ss' = (if car_id = cand_car c
                         then ?ss @ [(h, ?p, hour_port_count st h + 1)] else ?ss)"
      using take(5) by (simp add: dd_value_dd_append dd_value_dd_touch)
    show ?thesis
    proof (cases "car_id = cand_car c")
      case ne: False
      with new have "flag_of st car_id i" by blast
      with old sched ne show ?thesis by simp
    next
      case True
      from cand_ok_in [OF ok r(1) [unfolded True]] have
        ci: "0 \<le> cand_index c" "nat (cand_index c) < length reqs"
          "cand_need c = energy_kwh (reqs ! nat (cand_index c))"
          "cand_rate c = max_rate_kw (reqs ! nat (cand_index c))"
          "in_window (reqs ! nat (cand_index c)) h"
        by simp_all
      have "0 \<le> cand_rate c"
        using rates_nonneg_nth [OF rn r(1) ci(2)] ci(4) by simp
      with take(3) have p0: "0 \<le> ?p" by simp
      have app: "delivered (reqs ! i) ?ss' =
          delivered (reqs ! i) ?ss + (if in_window (reqs ! i) h then ?p else 0)"
        using sched True by (simp add: delivered_append)
      show ?thesis
      proof (cases "flag_of st car_id i")
        case fl: True
        have "delivered (reqs ! i) ?ss \<le> delivered (reqs ! i) ?ss'"
          unfolding app using p0 by (simp only: split: if_split) linarith
        with old [OF fl] show ?thesis by linarith
      next
        case nf: False
        from new [OF nf] have i: "i = nat (cand_index c)" by simp
        from energy_delivered_ok [OF r(1) [unfolded True] ci(1,2)] take(2)
        have d: "d = delivered (reqs ! i) ?ss"
          by (simp add: i True)
        have set: "cand_need c \<le> d + ?p"
        proof (rule ccontr)
          assume n: "\<not> cand_need c \<le> d + ?p"
          with take(4) have "requirements_met st = met'"
            by (simp only: if_False sum.inject)
          moreover have "requirements_met st' = met'" using take(5) by simp
          ultimately have "flag_of st' car_id i = flag_of st car_id i"
            by (simp add: flag_of_def)
          with f nf show False by simp
        qed
        with app d ci(3,5) i show ?thesis by simp
      qed
    qed
  qed
qed

text \<open>
  Claim C4. Whenever the scheduler returns, for requirements without negative charge
  rates: every requirement whose satisfaction flag is true in the final state has, in
  the final schedule, a sum of session power of its vehicle at the hours of its window
  \<open>[prior_day_start, prior_day_end)\<close> that is at least its energy need (in exact
  arithmetic).
\<close>

theorem satisfied_means_delivered:
  assumes "schedule_run en av cars num_ports total_hours = Inr st"
    and "rates_nonneg en"
    and "map_of en car_id = Some reqs" and "i < length reqs"
    and "flag_of st car_id i"
  shows "energy_kwh (reqs ! i) \<le> delivered (reqs ! i) (dd_value (schedule st) car_id)"
proof -
  have "satisfied_delivered en st"
  proof (rule schedule_run_invariant [OF assms(1), where P = "satisfied_delivered en"])
    show "satisfied_delivered en (init_state en)"
      by (simp add: satisfied_delivered_def flag_of_init)
  next
    fix h c s s'
    assume "cand_ok en h c" "satisfied_delivered en s" "assign_one en h c s = Inr s'"
    then show "satisfied_delivered en s'"
      using satisfied_delivered_assign_one assms(2) by blast
  qed
  with assms(3-5) show ?thesis
    by (auto simp: satisfied_delivered_def)
qed

lemma outcome_state:
  "outcome r = Inr (s, m) \<Longrightarrow> \<exists>st. r = Inr st \<and> schedule st = s \<and> requirements_met st = m"
  by (cases r) (auto simp: outcome_def)

theorem satisfied_means_delivered_witness:
  "rates_nonneg scenario_needs
   \<and> (\<exists>st. schedule_run scenario_needs (full_availability [''car1'']) scenario_cars 1 168 = Inr st
         \<and> flag_of st ''car1'' 0
         \<and> dd_value (schedule st) ''car1'' = [(18, 11, 1), (19, 11, 1), (20, 182 / 19, 1)]
         \<and> (600 / 19 :: real) \<le>
             delivered \<lparr>day = 0, deadline_hour = 31, energy_kwh = 600 / 19, max_rate_kw = 11,
                        target_soc = 0.8, prior_day_start = 18, prior_day_end = 24\<rparr>
               [(18, 11, 1), (19, 11, 1), (20, 182 / 19, 1)])"
proof -
  let ?r = "\<lparr>day = 0, deadline_hour = 31, energy_kwh = 600 / 19, max_rate_kw = 11,
             target_soc = 0.8, prior_day_start = 18, prior_day_end = 24\<rparr> :: requirement"
  from outcome_state [OF scenario_run_168] obtain st where
    run: "schedule_run scenario_needs (full_availability [''car1'']) scenario_cars 1 168 = Inr st"
    and s: "schedule st = [(''car1'', [(18, 11, 1), (19, 11, 1), (20, 182 / 19, 1)])]"
    and m: "requirements_met st = [(''car1'', [True])]"
    by blast
  have rn: "rates_nonneg scenario_needs"
    by (simp add: rates_nonneg_def scenario_needs_def)
  have en: "map_of scenario_needs ''car1'' = Some [?r]"
    by (simp add: scenario_needs_def)
  have f: "flag_of st ''car1'' 0"
    by (simp add: flag_of_def m)
  have v: "dd_value (schedule st) ''car1'' = [(18, 11, 1), (19, 11, 1), (20, 182 / 19, 1)]"
    by (simp add: dd_value_def s)
  have "energy_kwh ([?r] ! 0) \<le> delivered ([?r] ! 0) (dd_value (schedule st) ''car1'')"
    by (rule satisfied_means_delivered [OF run rn en _ f]) simp
  then have "(600 / 19 :: real) \<le> delivered ?r [(18, 11, 1), (19, 11, 1), (20, 182 / 19, 1)]"
    by (simp add: v)
  with run rn f v show ?thesis by blast
qed

subsection \<open>Requirements with need zero\<close>

lemma find_req_first:
  assumes "k + length reqs \<le> length fl" and "n < length reqs"
    and "\<not> fl ! (k + n)" and "in_window (reqs ! n) h"
    and "\<forall>m<n. fl ! (k + m) \<or> \<not> in_window (reqs ! m) h"
  shows "find_req h (int k) reqs (Some fl) = Inr (Some (int (k + n), reqs ! n))"
  using assms
proof (induction reqs arbitrary: k n)
  case Nil
  then show ?case by simp
next
  case (Cons r0 reqs)
  have pk: "py_index fl (int k) = Inr (fl ! k)"
    using Cons.prems(1) py_index_nat [of "int k" fl] by simp
  show ?case
  proof (cases n)
    case 0
    with Cons.prems(3,4) pk show ?thesis
      by (simp add: in_window_def)
  next
    case (Suc n')
    from Cons.prems(5) Suc have "fl ! (k + 0) \<or> \<not> in_window ((r0 # reqs) ! 0) h"
      by blast
    then have skip: "\<not> (\<not> fl ! k \<and> prior_day_start r0 \<le> h \<and> h < prior_day_end r0)"
      by (simp add: in_window_def)
    have "find_req h (int (Suc k)) reqs (Some fl) = Inr (Some (int (Suc k + n'), reqs ! n'))"
    proof (rule Cons.IH)
      show "Suc k + length reqs \<le> length fl" using Cons.prems(1) by simp
      show "n' < length reqs" using Cons.prems(2) Suc by simp
      show "\<not> fl ! (Suc k + n')" using Cons.prems(3) Suc by simp
      show "in_window (reqs ! n') h" using Cons.prems(4) Suc by simp
      show "\<forall>m<n'. fl ! (Suc k + m) \<or> \<not> in_window (reqs ! m) h"
      proof (intro allI impI)
        fix m assume "m < n'"
        then have "Suc m < n" using Suc by simp
        with Cons.prems(5) have "fl ! (k + Suc m) \<or> \<not> in_window ((r0 # reqs) ! Suc m) h"
          by blast
        then show "fl ! (Suc k + m) \<or> \<not> in_window (reqs ! m) h" by simp
      qed
    qed
    then have "find_req h (int k + 1) reqs (Some fl) = Inr (Some (int (k + n), (r0 # reqs) ! n))"
      using Suc by (simp add: add.commute)
    then show ?thesis
      using pk skip by (auto simp del: of_nat_Suc of_nat_add)
  qed
qed

lemma find_req_some:
  assumes "k + length reqs \<le> length fl" and "n < length reqs"
    and "\<not> fl ! (k + n)" and "in_window (reqs ! n) h"
  shows "\<exists>j r. find_req h (int k) reqs (Some fl) = Inr (Some (j, r))"
proof -
  let ?Q = "\<lambda>n. n < length reqs \<and> \<not> fl ! (k + n) \<and> in_window (reqs ! n) h"
  define n0 where "n0 = (LEAST n. ?Q n)"
  have q: "?Q n0"
    unfolding n0_def using assms(2-4) by (intro LeastI [of ?Q n]) simp
  have least: "\<not> ?Q m" if "m < n0" for m
    using that not_less_Least unfolding n0_def by blast
  have "\<forall>m<n0. fl ! (k + m) \<or> \<not> in_window (reqs ! m) h"
  proof (intro allI impI)
    fix m assume m: "m < n0"
    with q have "m < length reqs" by simp
    with least [OF m] show "fl ! (k + m) \<or> \<not> in_window (reqs ! m) h" by blast
  qed
  with find_req_first [OF assms(1), of n0 h] q show ?thesis by blast
qed

lemma build_car_needs_member:
  assumes "build_car_needs en cars met h cs = Inr cn" and "car_id \<in> set cs"
    and "map_of en car_id = Some reqs"
    and "find_req h 0 reqs (map_of met car_id) = Inr (Some (j, r))"
  shows "(car_id, j, energy_kwh r, max_rate_kw r) \<in> set cn"
  using assms(1,2)
proof (induction cs arbitrary: cn)
  case Nil
  then show ?case by simp
next
  case (Cons c0 cs)
  show ?case
  proof (cases "c0 = car_id")
    case True
    with Cons.prems(1) assms(3,4) show ?thesis
      by (auto split: sum.splits)
  next
    case False
    with Cons.prems(2) have in_rest: "car_id \<in> set cs" by simp
    from Cons.prems(1) consider
      (drop) "build_car_needs en cars met h cs = Inr cn"
    | (keep) c cn' where "build_car_needs en cars met h cs = Inr cn'" "cn = c # cn'"
      by (auto split: option.splits sum.splits)
    then show ?thesis
    proof cases
      case drop
      from Cons.IH [OF drop in_rest] show ?thesis .
    next
      case keep
      from Cons.IH [OF keep(1) in_rest] keep(2) show ?thesis by simp
    qed
  qed
qed

lemma cars_without_needs_member:
  "c \<in> set cn \<Longrightarrow> cand_need c = 0 \<Longrightarrow> c \<in> set (cars_without_needs cn)"
  by (simp add: cars_without_needs_def cand_need_def)

lemma flag_of_nth:
  assumes "flags_shape en st" and "map_of en car_id = Some reqs"
  obtains fl where "map_of (requirements_met st) car_id = Some fl" "length fl = length reqs"
    "\<And>j. j < length reqs \<Longrightarrow> flag_of st car_id j = fl ! j"
proof -
  from assms obtain fl where
    fl: "map_of (requirements_met st) car_id = Some fl" "length fl = length reqs"
    unfolding flags_shape_iff by blast
  then have "flag_of st car_id j = fl ! j" if "j < length reqs" for j
    using that by (simp add: flag_of_def)
  with fl that show thesis by blast
qed

lemma assign_one_zero:
  "assign_one en h (car_id, idx, 0, rate) s =
     Inr (record_session car_id h rate (hour_port_count s h + 1) s)"
  by (simp add: assign_one_def)

lemma schedule_hours_append:
  "schedule_hours en av cars num_ports (xs @ ys) st =
     (case schedule_hours en av cars num_ports xs st of
        Inl e \<Rightarrow> Inl e
      | Inr s \<Rightarrow> schedule_hours en av cars num_ports ys s)"
  by (induction xs arbitrary: st) (auto split: sum.splits)

text \<open>The state at the start of hour \<open>h\<close> of a run is the result of the run with horizon \<open>h\<close>.\<close>

lemma schedule_run_prefix:
  assumes "schedule_run en av cars num_ports total_hours = Inr st'"
    and "18 \<le> h" and "h \<le> total_hours"
  shows "\<exists>st. schedule_run en av cars num_ports h = Inr st
           \<and> schedule_hours en av cars num_ports [h..total_hours - 1] st = Inr st'"
proof (cases "h = total_hours")
  case True
  with assms(1) show ?thesis by simp
next
  case False
  with assms(3) have "[18..total_hours - 1] = [18..h - 1] @ [h..total_hours - 1]"
    using assms(2) by (intro upto_split1) simp_all
  with assms(1) show ?thesis
    by (auto simp: schedule_run_def schedule_hours_append split: sum.splits)
qed

text \<open>
  Claim C10. Let a vehicle have a requirement \<open>i\<close> with energy need exactly 0, and let
  \<open>st\<close> be the state of the scheduler at the start of hour \<open>h\<close> (or its final state,
  for \<open>h\<close> the horizon). Then the flag of that requirement is not set in \<open>st\<close>; if
  the vehicle is available at \<open>h\<close> and \<open>h\<close> lies in the window of the requirement,
  the vehicle is a candidate of hour \<open>h\<close>; if moreover every earlier requirement of
  the vehicle is met or not eligible, its candidate carries need 0 and stands in the
  group of candidates without needs; and the assignment step for that candidate appends
  a session at the full max rate, reads no delivered energy and leaves the flags as they are.
\<close>

theorem zero_need_requirement:
  assumes "schedule_run en av cars num_ports h = Inr st"
    and "map_of en car_id = Some reqs" and "i < length reqs"
    and "energy_kwh (reqs ! i) = 0"
  shows "\<not> flag_of st car_id i
    \<and> (\<forall>cn. build_car_needs en cars (requirements_met st) h (available_cars av h) = Inr cn
            \<and> car_id \<in> set (available_cars av h) \<and> in_window (reqs ! i) h
          \<longrightarrow> car_id \<in> cand_car ` set cn)
    \<and> (\<forall>cn. build_car_needs en cars (requirements_met st) h (available_cars av h) = Inr cn
            \<and> car_id \<in> set (available_cars av h) \<and> in_window (reqs ! i) h
            \<and> (\<forall>j<i. flag_of st car_id j \<or> \<not> in_window (reqs ! j) h)
          \<longrightarrow> (car_id, int i, 0, max_rate_kw (reqs ! i)) \<in> set (cars_without_needs cn))
    \<and> (\<forall>s h'. assign_one en h' (car_id, int i, 0, max_rate_kw (reqs ! i)) s =
                Inr (record_session car_id h' (max_rate_kw (reqs ! i)) (hour_port_count s h' + 1) s))"
proof -
  have nf: "\<not> flag_of st car_id i"
    using zero_unmet_run [OF assms(1)] assms(2-4) by (auto simp: zero_unmet_def)
  from flag_of_nth [OF flags_shape_run [OF assms(1)] assms(2)] obtain fl where
    fl: "map_of (requirements_met st) car_id = Some fl" "length fl = length reqs"
      "\<And>j. j < length reqs \<Longrightarrow> flag_of st car_id j = fl ! j"
    by blast
  have len: "0 + length reqs \<le> length fl" using fl(2) by simp
  have ni: "\<not> fl ! (0 + i)" using nf fl(3) [OF assms(3)] by simp
  have a: "car_id \<in> cand_car ` set cn"
    if "build_car_needs en cars (requirements_met st) h (available_cars av h) = Inr cn"
      "car_id \<in> set (available_cars av h)" "in_window (reqs ! i) h" for cn
  proof -
    from find_req_some [OF len assms(3) ni that(3)] obtain j r where
      "find_req h 0 reqs (map_of (requirements_met st) car_id) = Inr (Some (j, r))"
      by (auto simp: fl(1))
    from build_car_needs_member [OF that(1,2) assms(2) this] show ?thesis
      by (force simp: cand_car_def)
  qed
  have b: "(car_id, int i, 0, max_rate_kw (reqs ! i)) \<in> set (cars_without_needs cn)"
    if "build_car_needs en cars (requirements_met st) h (available_cars av h) = Inr cn"
      "car_id \<in> set (available_cars av h)" "in_window (reqs ! i) h"
      "\<forall>j<i. flag_of st car_id j \<or> \<not> in_window (reqs ! j) h" for cn
  proof -
    have "\<forall>m<i. fl ! (0 + m) \<or> \<not> in_window (reqs ! m) h"
      using that(4) fl(3) assms(3) by simp
    from find_req_first [OF len assms(3) ni that(3) this] have
      "find_req h 0 reqs (map_of (requirements_met st) car_id) = Inr (Some (int i, reqs ! i))"
      by (simp add: fl(1))
    from build_car_needs_member [OF that(1,2) assms(2) this] assms(4) show ?thesis
      by (intro cars_without_needs_member) (simp_all add: cand_need_def)
  qed
  show ?thesis
    using nf a b assign_one_zero by blast
qed


lemma zero_run_20:
  "outcome (schedule_run zero_needs (evening_availability [''Z'']) zero_cars 1 20) =
     Inr ([(''Z'', [(18, 11, 1), (19, 11, 1)])], [(''Z'', [False])])"
  unfolding zero_needs_def evening_availability_def zero_cars_def
  by code_simp

lemma zero_run_168:
  "outcome (schedule_run zero_needs (evening_availability [''Z'']) zero_cars 1 168) =
     Inr ([(''Z'', [(18, 11, 1), (19, 11, 1), (20, 11, 1), (21, 11, 1), (22, 11, 1), (23, 11, 1)])],
          [(''Z'', [False])])"
  unfolding zero_needs_def evening_availability_def zero_cars_def
  by code_simp

lemma zero_candidates_20:
  "build_car_needs zero_needs zero_cars [(''Z'', [False])] 20
     (available_cars (evening_availability [''Z'']) 20) = Inr [(''Z'', 0, 0, 11)]"
  unfolding zero_needs_def evening_availability_def zero_cars_def
  by code_simp

theorem zero_need_requirement_witness:
  "(\<exists>st. schedule_run zero_needs (evening_availability [''Z'']) zero_cars 1 20 = Inr st
        \<and> schedule st = [(''Z'', [(18, 11, 1), (19, 11, 1)])]
        \<and> \<not> flag_of st ''Z'' 0
        \<and> build_car_needs zero_needs zero_cars (requirements_met st) 20
             (available_cars (evening_availability [''Z'']) 20) = Inr [(''Z'', 0, 0, 11)]
        \<and> (''Z'', 0, 0, 11) \<in> set (cars_without_needs [(''Z'', 0, 0, 11)]))
   \<and> outcome (schedule_run zero_needs (evening_availability [''Z'']) zero_cars 1 168) =
       Inr ([(''Z'', [(18, 11, 1), (19, 11, 1), (20, 11, 1), (21, 11, 1), (22, 11, 1), (23, 11, 1)])],
            [(''Z'', [False])])"
proof -
  let ?r = "\<lparr>day = 0, deadline_hour = 31, energy_kwh = 0, max_rate_kw = 11,
             target_soc = 0.2, prior_day_start = 18, prior_day_end = 24\<rparr> :: requirement"
  from outcome_state [OF zero_run_20] obtain st where
    run: "schedule_run zero_needs (evening_availability [''Z'']) zero_cars 1 20 = Inr st"
    and s: "schedule st = [(''Z'', [(18, 11, 1), (19, 11, 1)])]"
    and m: "requirements_met st = [(''Z'', [False])]"
    by blast
  have en: "map_of zero_needs ''Z'' = Some [?r]"
    by (simp add: zero_needs_def)
  have i: "0 < length [?r]" by simp
  have e: "energy_kwh ([?r] ! 0) = 0" by simp
  note z = zero_need_requirement [OF run en i e]
  have nf: "\<not> flag_of st ''Z'' 0"
    using z by blast
  have cn: "build_car_needs zero_needs zero_cars (requirements_met st) 20
      (available_cars (evening_availability [''Z'']) 20) = Inr [(''Z'', 0, 0, 11)]"
    using zero_candidates_20 by (simp add: m)
  have av: "''Z'' \<in> set (available_cars (evening_availability [''Z'']) 20)"
    by (simp add: available_cars_def evening_availability_def)
  have w: "in_window ([?r] ! 0) 20"
    by (simp add: in_window_def)
  from z have "build_car_needs zero_needs zero_cars (requirements_met st) 20
        (available_cars (evening_availability [''Z'']) 20) = Inr [(''Z'', 0, 0, 11)]
      \<and> ''Z'' \<in> set (available_cars (evening_availability [''Z'']) 20)
      \<and> in_window ([?r] ! 0) 20
      \<and> (\<forall>j<0. flag_of st ''Z'' j \<or> \<not> in_window ([?r] ! j) 20)
      \<longrightarrow> (''Z'', int 0, 0, max_rate_kw ([?r] ! 0)) \<in> set (cars_without_needs [(''Z'', 0, 0, 11)])"
    by blast
  with cn av w have "(''Z'', 0, 0, 11) \<in> set (cars_without_needs [(''Z'', 0, 0, 11)])"
    by simp
  with run s nf cn zero_run_168 show ?thesis by blast
qed

subsection \<open>Truncation of the priority list\<close>

lemma assign_one_others:
  assumes "assign_one en h c st = Inr st'" and "car_id \<noteq> cand_car c"
  shows "dd_value (schedule st') car_id = dd_value (schedule st) car_id"
  using assms(1)
  by (cases rule: assign_one_cases)
    (use assms(2) in \<open>simp_all add: dd_value_dd_append dd_value_dd_touch\<close>)

lemma assign_slots_others:
  assumes "assign_slots en num_ports h cs st = Inr st'" and "car_id \<notin> cand_car ` set cs"
  shows "dd_value (schedule st') car_id = dd_value (schedule st) car_id"
proof (rule assign_slots_invariant [OF assms(1),
      where P = "\<lambda>s. dd_value (schedule s) car_id = dd_value (schedule st) car_id"])
  show "dd_value (schedule st) car_id = dd_value (schedule st) car_id" ..
next
  fix c s s'
  assume c: "c \<in> set cs" and s: "dd_value (schedule s) car_id = dd_value (schedule st) car_id"
    and one: "assign_one en h c s = Inr s'"
  from c assms(2) have "car_id \<noteq> cand_car c" by auto
  from assign_one_others [OF one this] s
  show "dd_value (schedule s') car_id = dd_value (schedule st) car_id" by simp
qed

lemma skip_step:
  assumes "assign_one en h c st = Inr st'" and "cand_need c \<noteq> 0"
    and "energy_delivered en (cand_car c) (cand_index c) (dd_value (schedule st) (cand_car c)) = Inr d"
    and "cand_need c \<le> d"
  shows "hour_port_count st' = hour_port_count st
         \<and> dd_value (schedule st') car_id = dd_value (schedule st) car_id
         \<and> sessions_at (schedule st') h' = sessions_at (schedule st) h'"
  using assms(1)
proof (cases rule: assign_one_cases)
  case opp
  with assms(2) show ?thesis by simp
next
  case (skip d' met')
  then show ?thesis
    by (simp add: dd_value_dd_touch sessions_at_dd_touch)
next
  case (take d' met')
  with assms(3,4) show ?thesis by simp
qed

lemma skip_run_19:
  "outcome (schedule_run skip_needs skip_availability skip_cars 1 19) =
     Inr ([(''A'', [(18, 10, 1)])], [(''A'', [True, False])])"
  unfolding skip_needs_def skip_availability_def skip_cars_def
  by code_simp

lemma skip_candidates_19:
  "build_car_needs skip_needs skip_cars [(''A'', [True, False])] 19
     (available_cars skip_availability 19) = Inr [(''A'', 1, 5, 11), (''B'', - 1, 0, 22)]"
  unfolding skip_needs_def skip_availability_def skip_cars_def
  by code_simp

lemma skip_priority_19:
  "prioritize [(''A'', 1, 5, 11), (''B'', - 1, 0, 22)] = [(''A'', 1, 5, 11), (''B'', - 1, 0, 22)]"
  by code_simp

lemma skip_run_20:
  "outcome (schedule_run skip_needs skip_availability skip_cars 1 20) =
     Inr ([(''A'', [(18, 10, 1)])], [(''A'', [True, True])])"
  unfolding skip_needs_def skip_availability_def skip_cars_def
  by code_simp

lemma skip_run_168:
  "outcome (schedule_run skip_needs skip_availability skip_cars 1 168) =
     Inr ([(''A'', [(18, 10, 1)]), (''B'', [(20, 22, 1)])], [(''A'', [True, True])])"
  unfolding skip_needs_def skip_availability_def skip_cars_def
  by code_simp

lemma skip_state_step:
  "outcome (assign_one skip_needs 19 (''A'', 1, 5, 11) skip_state) =
     Inr ([(''A'', [(18, 10, 1)])], [(''A'', [True, True])])"
  unfolding skip_needs_def skip_state_def
  by code_simp

lemma skip_state_delivered:
  "energy_delivered skip_needs ''A'' 1 (dd_value (schedule skip_state) ''A'') = Inr 10"
  unfolding skip_needs_def skip_state_def
  by code_simp

text \<open>
  Claim C5. In an hour of the frame, the sessions of every vehicle outside the first
  \<open>num_ports\<close> candidates of the priority list stay as they were: only those first
  candidates are considered. The step for a considered candidate whose window already
  holds its need leaves the port counter and every session list as they were: it takes
  no port. And nothing fills the slot: with vehicle \<open>A\<close> (needs 10 and 5 in one
  window) and vehicle \<open>B\<close> (no requirements) on one port, at hour 19 the candidates are
  \<open>A\<close> then \<open>B\<close>, only \<open>A\<close> is considered, it is found satisfied and skipped, and the
  hour ends with no session although \<open>B\<close> is available and the port is free; \<open>B\<close>
  charges at hour 20 only.
\<close>

theorem top_n_without_backfill:
  "(schedule_hour en av cars num_ports h st = Inr st' \<and> h \<in> set (columns av)
      \<and> build_car_needs en cars (requirements_met st) h (available_cars av h) = Inr cn
      \<and> car_id \<notin> cand_car ` set (py_take num_ports (prioritize cn))
    \<longrightarrow> dd_value (schedule st') car_id = dd_value (schedule st) car_id)
   \<and> (assign_one en h c st = Inr st' \<and> cand_need c \<noteq> 0
      \<and> energy_delivered en (cand_car c) (cand_index c) (dd_value (schedule st) (cand_car c)) = Inr d
      \<and> cand_need c \<le> d
    \<longrightarrow> hour_port_count st' = hour_port_count st
        \<and> dd_value (schedule st') car_id = dd_value (schedule st) car_id
        \<and> sessions_at (schedule st') h' = sessions_at (schedule st) h')
   \<and> outcome (schedule_run skip_needs skip_availability skip_cars 1 19) =
       Inr ([(''A'', [(18, 10, 1)])], [(''A'', [True, False])])
   \<and> build_car_needs skip_needs skip_cars [(''A'', [True, False])] 19
       (available_cars skip_availability 19) = Inr [(''A'', 1, 5, 11), (''B'', - 1, 0, 22)]
   \<and> py_take 1 (prioritize [(''A'', 1, 5, 11), (''B'', - 1, 0, 22)]) = [(''A'', 1, 5, 11)]
   \<and> outcome (schedule_run skip_needs skip_availability skip_cars 1 20) =
       Inr ([(''A'', [(18, 10, 1)])], [(''A'', [True, True])])
   \<and> sessions_at [(''A'', [(18, 10, 1)])] 19 = 0
   \<and> outcome (schedule_run skip_needs skip_availability skip_cars 1 168) =
       Inr ([(''A'', [(18, 10, 1)]), (''B'', [(20, 22, 1)])], [(''A'', [True, True])])"
proof -
  have a: "dd_value (schedule st') car_id = dd_value (schedule st) car_id"
    if "schedule_hour en av cars num_ports h st = Inr st'" "h \<in> set (columns av)"
      "build_car_needs en cars (requirements_met st) h (available_cars av h) = Inr cn"
      "car_id \<notin> cand_car ` set (py_take num_ports (prioritize cn))"
    using that(1)
  proof (cases rule: schedule_hour_cases)
    case skipped
    then show ?thesis by simp
  next
    case (processed cn')
    with that(3) have "cn' = cn" by simp
    with processed(3) that(4) show ?thesis
      by (intro assign_slots_others) simp_all
  qed
  have t: "py_take 1 (prioritize [(''A'', 1, 5, 11), (''B'', - 1, 0, 22)]) = [(''A'', 1, 5, 11)]"
    by (simp add: skip_priority_19 py_take_def)
  have z: "sessions_at [(''A'', [(18, 10, 1)])] 19 = 0"
    by (simp add: sessions_at_def)
  show ?thesis
    using a skip_step [of en h c st st' d car_id h'] skip_run_19 skip_candidates_19 t
      skip_run_20 z skip_run_168
    by blast
qed

theorem top_n_without_backfill_witness:
  "(\<exists>st'. assign_one skip_needs 19 (''A'', 1, 5, 11) skip_state = Inr st'
        \<and> hour_port_count st' = hour_port_count skip_state
        \<and> dd_value (schedule st') ''A'' = [(18, 10, 1)]
        \<and> sessions_at (schedule st') 19 = 0
        \<and> requirements_met st' = [(''A'', [True, True])])
   \<and> (\<exists>st'. schedule_hour skip_needs skip_availability skip_cars 1 19 skip_state = Inr st'
        \<and> dd_value (schedule st') ''B'' = [])"
proof -
  from outcome_state [OF skip_state_step] obtain s1 where
    one: "assign_one skip_needs 19 (''A'', 1, 5, 11) skip_state = Inr s1"
    and m1: "requirements_met s1 = [(''A'', [True, True])]"
    by blast
  have need: "cand_need (''A'', 1, 5, 11) \<noteq> 0" "cand_need (''A'', 1, 5, 11) \<le> 10"
    by (simp_all add: cand_need_def)
  have ed: "energy_delivered skip_needs (cand_car (''A'', 1, 5, 11)) (cand_index (''A'', 1, 5, 11))
      (dd_value (schedule skip_state) (cand_car (''A'', 1, 5, 11))) = Inr 10"
    using skip_state_delivered by (simp add: cand_car_def cand_index_def)
  note thm1 = top_n_without_backfill
    [of skip_needs skip_availability skip_cars 1 19 skip_state s1
        "[(''A'', 1, 5, 11), (''B'', - 1, 0, 22)]" "''A''" "(''A'', 1, 5, 11)" 10 19]
  from thm1 one need ed have
    k: "hour_port_count s1 = hour_port_count skip_state"
      "dd_value (schedule s1) ''A'' = dd_value (schedule skip_state) ''A''"
      "sessions_at (schedule s1) 19 = sessions_at (schedule skip_state) 19"
    by blast+
  have v: "dd_value (schedule skip_state) ''A'' = [(18, 10, 1)]"
    "sessions_at (schedule skip_state) 19 = 0"
    by (simp_all add: skip_state_def dd_value_def sessions_at_def)
  have part1: "\<exists>st'. assign_one skip_needs 19 (''A'', 1, 5, 11) skip_state = Inr st'
        \<and> hour_port_count st' = hour_port_count skip_state
        \<and> dd_value (schedule st') ''A'' = [(18, 10, 1)]
        \<and> sessions_at (schedule st') 19 = 0
        \<and> requirements_met st' = [(''A'', [True, True])]"
    using one k v m1 by auto
  have cols: "19 \<in> set (columns skip_availability)"
    by (simp add: skip_availability_def)
  have cn: "build_car_needs skip_needs skip_cars (requirements_met skip_state) 19
      (available_cars skip_availability 19) = Inr [(''A'', 1, 5, 11), (''B'', - 1, 0, 22)]"
    using skip_candidates_19 by (simp add: skip_state_def)
  have top: "py_take 1 (prioritize [(''A'', 1, 5, 11), (''B'', - 1, 0, 22)]) = [(''A'', 1, 5, 11)]"
    by (simp add: skip_priority_19 py_take_def)
  have c0: "hour_port_count skip_state 19 = 0"
    by (simp add: skip_state_def)
  have hour: "schedule_hour skip_needs skip_availability skip_cars 1 19 skip_state = Inr s1"
    using cols cn top one k(1) c0 by (simp add: schedule_hour_def)
  have nb: "''B'' \<notin> cand_car ` set (py_take 1 (prioritize [(''A'', 1, 5, 11), (''B'', - 1, 0, 22)]))"
    by (simp add: top cand_car_def)
  note thm2 = top_n_without_backfill
    [of skip_needs skip_availability skip_cars 1 19 skip_state s1
        "[(''A'', 1, 5, 11), (''B'', - 1, 0, 22)]" "''B''" "(''A'', 1, 5, 11)" 10 19]
  from thm2 hour cols cn nb have
    "dd_value (schedule s1) ''B'' = dd_value (schedule skip_state) ''B''"
    by blast
  then have "dd_value (schedule s1) ''B'' = []"
    by (simp add: skip_state_def dd_value_def)
  with hour part1 show ?thesis by blast
qed

subsection \<open>The derived requirements\<close>

lemma needs_of_times_derived:
  assumes "needs_of_times cars initial_soc car_id (capacity_kWh c) dayS ts en = Inr en'"
    and "map_of cars car_id = Some c"
  shows "\<exists>rs. list_all2 (derived_from c initial_soc) (map (\<lambda>e. (dayS, fst e, snd e)) ts) rs
           \<and> (\<forall>k. dd_value en' k = (if k = car_id then dd_value en k @ rs else dd_value en k))
           \<and> (\<forall>k. dict_contains en' k \<longleftrightarrow> dict_contains en k \<or> (k = car_id \<and> ts \<noteq> []))"
  using assms(1)
proof (induction ts arbitrary: en)
  case Nil
  then show ?case by simp
next
  case (Cons e ts)
  from Cons.prems obtain hr where hr: "py_int (split_colon_first (fst e)) = Inr hr"
    by (cases "py_int (split_colon_first (fst e))") simp_all
  from Cons.prems hr obtain nd where nd: "py_int dayS = Inr nd"
    by (cases "py_int dayS") simp_all
  let ?r = "spec_requirement c initial_soc nd hr (snd e)"
  from Cons.prems hr nd assms(2) have
    rest: "needs_of_times cars initial_soc car_id (capacity_kWh c) dayS ts (dd_append car_id ?r en) = Inr en'"
    by (simp add: spec_requirement_def)
  from Cons.IH [OF rest] obtain rs where
    rs: "list_all2 (derived_from c initial_soc) (map (\<lambda>e. (dayS, fst e, snd e)) ts) rs"
      "\<forall>k. dd_value en' k = (if k = car_id then dd_value (dd_append car_id ?r en) k @ rs
                               else dd_value (dd_append car_id ?r en) k)"
      "\<forall>k. dict_contains en' k \<longleftrightarrow> dict_contains (dd_append car_id ?r en) k \<or> (k = car_id \<and> ts \<noteq> [])"
    by blast
  have d: "derived_from c initial_soc (dayS, fst e, snd e) ?r"
    by (simp add: derived_from_def hr nd)
  have "list_all2 (derived_from c initial_soc) (map (\<lambda>e. (dayS, fst e, snd e)) (e # ts)) (?r # rs)"
    using d rs(1) by simp
  moreover have "\<forall>k. dd_value en' k = (if k = car_id then dd_value en k @ (?r # rs) else dd_value en k)"
    using rs(2) by (simp add: dd_value_dd_append)
  moreover have "\<forall>k. dict_contains en' k \<longleftrightarrow> dict_contains en k \<or> (k = car_id \<and> e # ts \<noteq> [])"
    using rs(3) by (auto simp: dict_contains_dd_append)
  ultimately show ?case by blast
qed

lemma needs_of_days_derived:
  assumes "needs_of_days cars initial_soc car_id (capacity_kWh c) days en = Inr en'"
    and "map_of cars car_id = Some c"
  shows "\<exists>rs. list_all2 (derived_from c initial_soc) (entries_of days) rs
           \<and> (\<forall>k. dd_value en' k = (if k = car_id then dd_value en k @ rs else dd_value en k))
           \<and> (\<forall>k. dict_contains en' k \<longleftrightarrow> dict_contains en k \<or> (k = car_id \<and> entries_of days \<noteq> []))"
  using assms(1)
proof (induction days arbitrary: en)
  case Nil
  then show ?case by (simp add: entries_of_def)
next
  case (Cons d days)
  from Cons.prems obtain en1 where
    one: "needs_of_times cars initial_soc car_id (capacity_kWh c) (fst d) (snd d) en = Inr en1"
    and rest: "needs_of_days cars initial_soc car_id (capacity_kWh c) days en1 = Inr en'"
    by (auto split: sum.splits)
  from needs_of_times_derived [OF one assms(2)] obtain r1 where
    r1: "list_all2 (derived_from c initial_soc) (map (\<lambda>e. (fst d, fst e, snd e)) (snd d)) r1"
      "\<forall>k. dd_value en1 k = (if k = car_id then dd_value en k @ r1 else dd_value en k)"
      "\<forall>k. dict_contains en1 k \<longleftrightarrow> dict_contains en k \<or> (k = car_id \<and> snd d \<noteq> [])"
    by blast
  from Cons.IH [OF rest] obtain r2 where
    r2: "list_all2 (derived_from c initial_soc) (entries_of days) r2"
      "\<forall>k. dd_value en' k = (if k = car_id then dd_value en1 k @ r2 else dd_value en1 k)"
      "\<forall>k. dict_contains en' k \<longleftrightarrow> dict_contains en1 k \<or> (k = car_id \<and> entries_of days \<noteq> [])"
    by blast
  have e: "entries_of (d # days) = map (\<lambda>e. (fst d, fst e, snd e)) (snd d) @ entries_of days"
    by (simp add: entries_of_def)
  have "list_all2 (derived_from c initial_soc) (entries_of (d # days)) (r1 @ r2)"
    unfolding e using r1(1) r2(1) by (rule list_all2_appendI)
  moreover have "\<forall>k. dd_value en' k = (if k = car_id then dd_value en k @ (r1 @ r2) else dd_value en k)"
    using r1(2) r2(2) by simp
  moreover have "\<forall>k. dict_contains en' k \<longleftrightarrow>
      dict_contains en k \<or> (k = car_id \<and> entries_of (d # days) \<noteq> [])"
    using r1(3) r2(3) by (auto simp: e)
  ultimately show ?case by blast
qed

lemma needs_of_cars_derived:
  assumes "needs_of_cars cars initial_soc reqs en = Inr en'" and "distinct (map fst reqs)"
  shows "(\<exists>rs. dd_value en' k = dd_value en k @ rs
            \<and> (if vehicle_entries reqs k = [] then rs = []
               else \<exists>c. map_of cars k = Some c
                      \<and> list_all2 (derived_from c initial_soc) (vehicle_entries reqs k) rs))
         \<and> (dict_contains en' k \<longleftrightarrow> dict_contains en k \<or> vehicle_entries reqs k \<noteq> [])"
  using assms
proof (induction reqs arbitrary: en)
  case Nil
  then show ?case by (simp add: vehicle_entries_def)
next
  case (Cons cr reqs)
  from Cons.prems(2) have dist: "distinct (map fst reqs)" and nin: "fst cr \<notin> fst ` set reqs"
    by auto
  have ve: "vehicle_entries (cr # reqs) k =
      (if k = fst cr then entries_of (snd cr) else vehicle_entries reqs k)"
    by (cases cr) (simp add: vehicle_entries_def)
  have ve0: "vehicle_entries reqs (fst cr) = []"
    using nin by (simp add: vehicle_entries_def map_of_eq_None_iff [THEN iffD2])
  show ?case
  proof (cases "snd cr = []")
    case True
    with Cons.prems(1) have rest: "needs_of_cars cars initial_soc reqs en = Inr en'"
      by simp
    have "entries_of (snd cr) = []" using True by (simp add: entries_of_def)
    with ve ve0 have "vehicle_entries (cr # reqs) k = vehicle_entries reqs k"
      by (cases "k = fst cr") simp_all
    then show ?thesis
      using Cons.IH [OF rest dist] by (simp only:)
  next
    case False
    with Cons.prems(1) obtain c where c: "map_of cars (fst cr) = Some c"
      by (cases "map_of cars (fst cr)") simp_all
    with Cons.prems(1) False obtain en1 where
      one: "needs_of_days cars initial_soc (fst cr) (capacity_kWh c) (snd cr) en = Inr en1"
      and rest: "needs_of_cars cars initial_soc reqs en1 = Inr en'"
      by (auto split: sum.splits)
    from needs_of_days_derived [OF one c] obtain r1 where
      r1: "list_all2 (derived_from c initial_soc) (entries_of (snd cr)) r1"
        "\<forall>k. dd_value en1 k = (if k = fst cr then dd_value en k @ r1 else dd_value en k)"
        "\<forall>k. dict_contains en1 k \<longleftrightarrow> dict_contains en k \<or> (k = fst cr \<and> entries_of (snd cr) \<noteq> [])"
      by blast
    from Cons.IH [OF rest dist] obtain r2 where
      r2: "dd_value en' k = dd_value en1 k @ r2"
        "if vehicle_entries reqs k = [] then r2 = []
         else \<exists>c. map_of cars k = Some c
                \<and> list_all2 (derived_from c initial_soc) (vehicle_entries reqs k) r2"
        "dict_contains en' k \<longleftrightarrow> dict_contains en1 k \<or> vehicle_entries reqs k \<noteq> []"
      by blast
    show ?thesis
    proof (cases "k = fst cr")
      case True
      with r2(2) ve0 have "r2 = []" by simp
      with r2(1) r1(2) True have "dd_value en' k = dd_value en k @ r1" by simp
      moreover have "if entries_of (snd cr) = [] then r1 = []
          else \<exists>c. map_of cars k = Some c
                 \<and> list_all2 (derived_from c initial_soc) (entries_of (snd cr)) r1"
        using r1(1) c True by auto
      ultimately show ?thesis
        using r2(3) r1(3) ve ve0 True by auto
    next
      case ne: False
      with r2 r1(2,3) ve show ?thesis by auto
    qed
  qed
qed

lemma digit_cases:
  assumes "d < (10::nat)"
  obtains "d = 0" | "d = 1" | "d = 2" | "d = 3" | "d = 4" | "d = 5" | "d = 6"
    | "d = 7" | "d = 8" | "d = 9"
  using assms by (auto simp: less_Suc_eq numeral_eq_Suc)

lemma digit_val_digit_char: "d < 10 \<Longrightarrow> digit_val (digit_char d) = Some d"
  by (erule digit_cases) (simp_all add: digit_val_def digit_char_def)

lemma digit_char_plain:
  assumes "d < 10"
  shows "\<not> is_space (digit_char d)" "digit_char d \<noteq> CHR '':''" "digit_char d \<noteq> CHR ''-''"
    "digit_char d \<noteq> CHR ''+''"
  using assms by (erule_tac [!] digit_cases) (simp_all add: is_space_def digit_char_def)

lemma parse_digits_decimal:
  assumes "list_all (\<lambda>d. d < 10) ds" and "ds \<noteq> [] \<or> prev"
  shows "parse_digits prev acc (map digit_char ds) = Some (foldl (\<lambda>a d. a * 10 + d) acc ds)"
  using assms
  by (induction ds arbitrary: prev acc) (auto simp: digit_val_digit_char)

lemma dropWhile_none: "\<forall>c\<in>set s. \<not> P c \<Longrightarrow> dropWhile P s = s"
  by (cases s) auto

lemma strip_digits:
  assumes "list_all (\<lambda>d. d < 10) ds"
  shows "strip (map digit_char ds) = map digit_char ds"
proof -
  have ns: "\<forall>c\<in>set (map digit_char ds). \<not> is_space c"
    using assms by (auto simp: list_all_iff digit_char_plain)
  then have "dropWhile is_space (map digit_char ds) = map digit_char ds"
    by (rule dropWhile_none)
  moreover have "dropWhile is_space (rev (map digit_char ds)) = rev (map digit_char ds)"
    using ns by (intro dropWhile_none) simp
  ultimately show ?thesis
    by (simp add: strip_def)
qed

lemma py_int_decimal:
  assumes "ds \<noteq> []" and "list_all (\<lambda>d. d < 10) ds"
  shows "py_int (map digit_char ds) = Inr (int (decimal ds))"
proof -
  obtain d ds' where ds: "ds = d # ds'" using assms(1) by (cases ds) auto
  with assms(2) have d: "d < 10" by simp
  have "parse_digits False 0 (map digit_char ds) = Some (decimal ds)"
    using parse_digits_decimal [OF assms(2), of False 0] assms(1) by (simp add: decimal_def)
  then show ?thesis
    using strip_digits [OF assms(2)] digit_char_plain [OF d]
    by (simp add: py_int_def ds)
qed

lemma split_colon_first_decimal:
  assumes "list_all (\<lambda>d. d < 10) ds"
  shows "split_colon_first (map digit_char ds @ CHR '':'' # rest) = map digit_char ds"
proof -
  have "\<forall>c\<in>set (map digit_char ds). c \<noteq> CHR '':''"
    using assms by (auto simp: list_all_iff digit_char_plain)
  then show ?thesis
    unfolding split_colon_first_def by (simp add: takeWhile_append2 takeWhile_tail)
qed

lemma needs_of_times_returns:
  assumes "map_of cars car_id = Some c"
    and "list_all (\<lambda>ts. is_int (split_colon_first (fst ts)) \<and> is_int dayS) ts"
  shows "\<exists>en'. needs_of_times cars initial_soc car_id capacity dayS ts en = Inr en'"
  using assms(2)
proof (induction ts arbitrary: en)
  case Nil
  then show ?case by simp
next
  case (Cons e ts)
  from Cons.prems obtain hr nd where
    p: "py_int (split_colon_first (fst e)) = Inr hr" "py_int dayS = Inr nd"
    by (auto simp: is_int_def split: sum.splits)
  have ih: "\<exists>en'. needs_of_times cars initial_soc car_id capacity dayS ts en0 = Inr en'" for en0
    using Cons.IH [of en0] Cons.prems by (auto simp: list_all_iff)
  show ?case
    by (simp add: p assms(1)) (rule ih)
qed

lemma needs_of_days_returns:
  assumes "map_of cars car_id = Some c"
    and "list_all (\<lambda>d. list_all (\<lambda>ts. is_int (split_colon_first (fst ts)) \<and> is_int (fst d)) (snd d)) days"
  shows "\<exists>en'. needs_of_days cars initial_soc car_id capacity days en = Inr en'"
  using assms(2)
proof (induction days arbitrary: en)
  case Nil
  then show ?case by simp
next
  case (Cons d days)
  from Cons.prems have
    "list_all (\<lambda>ts. is_int (split_colon_first (fst ts)) \<and> is_int (fst d)) (snd d)"
    by simp
  from needs_of_times_returns [OF assms(1) this, of initial_soc capacity en] obtain en1 where
    one: "needs_of_times cars initial_soc car_id capacity (fst d) (snd d) en = Inr en1"
    by blast
  have "\<exists>en'. needs_of_days cars initial_soc car_id capacity days en1 = Inr en'"
    using Cons.IH [of en1] Cons.prems by simp
  with one show ?case by simp
qed

lemma calculate_energy_needs_returns:
  assumes "inputs_ok cars reqs"
  shows "\<exists>en. calculate_energy_needs cars reqs initial_soc = Inr en"
proof -
  have "\<exists>en'. needs_of_cars cars initial_soc reqs en = Inr en'" for en
    using assms unfolding inputs_ok_def
  proof (induction reqs arbitrary: en)
    case Nil
    then show ?case by simp
  next
    case (Cons cr reqs)
    show ?case
    proof (cases "snd cr = []")
      case True
      with Cons show ?thesis by simp
    next
      case False
      with Cons.prems obtain c where c: "map_of cars (fst cr) = Some c"
        by (auto simp: dict_contains_def)
      from Cons.prems False have
        "list_all (\<lambda>d. list_all (\<lambda>ts. is_int (split_colon_first (fst ts)) \<and> is_int (fst d)) (snd d))
           (snd cr)"
        by simp
      from needs_of_days_returns [OF c this, of initial_soc "capacity_kWh c" en] obtain en1 where
        one: "needs_of_days cars initial_soc (fst cr) (capacity_kWh c) (snd cr) en = Inr en1"
        by blast
      have "\<exists>en'. needs_of_cars cars initial_soc reqs en1 = Inr en'"
        using Cons.IH [of en1] Cons.prems by simp
      with one c False show ?thesis by simp
    qed
  qed
  then show ?thesis by (simp add: calculate_energy_needs_def)
qed

text \<open>
  Claim C6. Whenever the deriver returns (it does when every vehicle with entries is in
  the roster and every day and hour parses, \<open>calculate_energy_needs_returns\<close>), for
  requirements with distinct vehicle keys: the requirements of a vehicle are, in the
  order of its entries \<open>(day, time, target)\<close>, exactly the requirements with day
  \<open>d = int(day)\<close>, hour \<open>H = int(time.split(':')[0])\<close>, deadline
  \<open>(d + 1) * 24 + H\<close>, need \<open>(target - initial_soc) * capacity / 0.95\<close>, the
  vehicle's max rate, and window \<open>[d * 24 + 18, (d + 1) * 24)\<close>; a vehicle with no
  entry is no key of the result. A time string of decimal digits followed by a colon
  parses to the number the digits write.
\<close>

theorem derived_requirements:
  assumes "calculate_energy_needs cars reqs initial_soc = Inr en"
    and "distinct (map fst reqs)"
  shows "(if vehicle_entries reqs car_id = []
          then \<not> dict_contains en car_id \<and> dd_value en car_id = []
          else \<exists>c. map_of cars car_id = Some c
                 \<and> list_all2 (derived_from c initial_soc) (vehicle_entries reqs car_id)
                      (dd_value en car_id))
         \<and> (ds \<noteq> [] \<and> list_all (\<lambda>d. d < 10) ds \<longrightarrow>
              py_int (split_colon_first (map digit_char ds @ CHR '':'' # rest)) =
                Inr (int (decimal ds)))"
proof -
  from needs_of_cars_derived [OF assms(1) [unfolded calculate_energy_needs_def] assms(2), of car_id]
  have "if vehicle_entries reqs car_id = []
        then \<not> dict_contains en car_id \<and> dd_value en car_id = []
        else \<exists>c. map_of cars car_id = Some c
               \<and> list_all2 (derived_from c initial_soc) (vehicle_entries reqs car_id)
                    (dd_value en car_id)"
    by (auto simp: dd_value_def dict_contains_def)
  then show ?thesis
    by (simp add: split_colon_first_decimal py_int_decimal)
qed


theorem derived_requirements_witness:
  "calculate_energy_needs scenario_cars scenario_reqs 0.2 = Inr scenario_needs
   \<and> distinct (map fst scenario_reqs)
   \<and> vehicle_entries scenario_reqs ''car1'' = [(''0'', ''07:00'', 0.8)]
   \<and> dd_value scenario_needs ''car1'' =
       [spec_requirement \<lparr>capacity_kWh = 50, max_charge_rate_kW = 11\<rparr> 0.2 0 7 0.8]
   \<and> \<not> dict_contains scenario_needs ''car2''
   \<and> py_int (split_colon_first ''07:00'') = Inr 7"
proof -
  have d: "distinct (map fst scenario_reqs)"
    by (simp add: scenario_reqs_def)
  have ve: "vehicle_entries scenario_reqs ''car1'' = [(''0'', ''07:00'', 0.8)]"
    "vehicle_entries scenario_reqs ''car2'' = []"
    by (simp_all add: vehicle_entries_def scenario_reqs_def entries_of_def)
  have dig: "digit_char 0 = CHR ''0''" "digit_char 7 = CHR ''7''" "decimal [0, 7] = 7"
    by (simp_all add: digit_char_def decimal_def)
  note t1 = derived_requirements [OF scenario_needs_derived d, of "''car1''" "[0, 7]" "''00''"]
  note t2 = derived_requirements [OF scenario_needs_derived d, of "''car2''" "[0, 7]" "''00''"]
  from t1 have p: "py_int (split_colon_first ''07:00'') = Inr 7"
    by (simp add: dig)
  have p0: "py_int ''0'' = Inr 0"
    by (simp add: py_int_def strip_def is_space_def digit_val_def)
  from t1 ve(1) obtain c where
    c: "map_of scenario_cars ''car1'' = Some c"
    and l: "list_all2 (derived_from c 0.2) [(''0'', ''07:00'', 0.8)] (dd_value scenario_needs ''car1'')"
    by auto
  from c have ceq: "c = \<lparr>capacity_kWh = 50, max_charge_rate_kW = 11\<rparr>"
    by (simp add: scenario_cars_def)
  from l obtain r where
    r: "dd_value scenario_needs ''car1'' = [r]" "derived_from c 0.2 (''0'', ''07:00'', 0.8) r"
    by (auto simp: list_all2_Cons1)
  from r(2) have "r = spec_requirement c 0.2 0 7 0.8"
    by (simp add: derived_from_def p p0)
  with r(1) ceq have v: "dd_value scenario_needs ''car1'' =
      [spec_requirement \<lparr>capacity_kWh = 50, max_charge_rate_kW = 11\<rparr> 0.2 0 7 0.8]"
    by simp
  from t2 ve(2) have n2: "\<not> dict_contains scenario_needs ''car2''"
    by simp
  show ?thesis
    using scenario_needs_derived d ve(1) v n2 p by blast
qed

end
